theory Spec2Isabelle
  imports Complex_Main
begin

section \<open>Python strings\<close>

text \<open>
  A Python \<open>str\<close> is a sequence of Unicode code points and is modelled as the list
  of their numbers, the integers that \<open>ord\<close> returns; \<open>ustr\<close> turns a literal of the
  source, written as a \<open>string\<close>, into that list. A \<open>bytes\<close> value is a \<open>string\<close>,
  a list of 8-bit characters.
\<close>

type_synonym ustring = "int list"

definition ustr :: "string \<Rightarrow> ustring" where
  "ustr s = map of_char s"

section \<open>Configuration (config.py)\<close>

text \<open>
  The fields of \<open>Config.__init__\<close> that the modelled code reads. Python integers are
  unbounded, hence \<open>int\<close>. The fields read from the process environment (the bot token,
  the administrator ids, the database address) are used by none of the functions below.
\<close>

record Config =
  MAX_FILE_SIZE :: int
  CONCURRENT_DOWNLOADS :: int
  REQUEST_TIMEOUT :: int
  TEMP_DIR :: ustring
  REQUESTS_PER_MINUTE :: int
  BURST_SIZE :: int

definition config :: Config where
  "config = \<lparr> MAX_FILE_SIZE = 100 * 1024 * 1024,
              CONCURRENT_DOWNLOADS = 3,
              REQUEST_TIMEOUT = 30,
              TEMP_DIR = ustr ''/tmp/snap_downloads'',
              REQUESTS_PER_MINUTE = 20,
              BURST_SIZE = 5 \<rparr>"

section \<open>Rate limiter (telegram\_bot.py, class RateLimiter)\<close>

text \<open>
  \<open>self.user_requests\<close> is a dictionary from user ids to lists of timestamps. A
  timestamp is the value of \<open>datetime.now().timestamp()\<close>, seconds as a float; it is
  modelled as a real number, so the rounding of float subtraction is not part of the
  model. The clock is an input: each function takes the instant \<open>current_time\<close> that
  its call to \<open>datetime.now()\<close> reads.
\<close>

type_synonym user_requests = "int \<rightharpoonup> real list"

text \<open>The list stored for a user, empty when the user has no entry.\<close>

definition history :: "user_requests \<Rightarrow> int \<Rightarrow> real list" where
  "history reqs user_id = (case reqs user_id of None \<Rightarrow> [] | Some ts \<Rightarrow> ts)"

text \<open>
  \<open>is_allowed\<close>: create the entry if missing, drop the instants that are 60 seconds old
  or older, reject at the ceiling (the pruned list stays stored), else append the current
  instant. The result is the returned boolean and the dictionary after the call.
\<close>

definition is_allowed :: "Config \<Rightarrow> real \<Rightarrow> int \<Rightarrow> user_requests \<Rightarrow> bool \<times> user_requests" where
  "is_allowed cfg current_time user_id reqs =
     (let reqs1 = (case reqs user_id of None \<Rightarrow> reqs(user_id \<mapsto> []) | Some _ \<Rightarrow> reqs);
          kept = filter (\<lambda>t. current_time - t < 60) (history reqs1 user_id);
          reqs2 = reqs1(user_id \<mapsto> kept)
      in if int (length kept) \<ge> REQUESTS_PER_MINUTE cfg
         then (False, reqs2)
         else (True, reqs2(user_id \<mapsto> kept @ [current_time])))"

text \<open>
  \<open>get_wait_time\<close>: 0 for an unknown user and for a user with no instant inside the
  window, else \<open>max(0, 60 - (current_time - min(valid_requests)))\<close>. The dictionary is
  not changed.
\<close>

definition get_wait_time :: "real \<Rightarrow> int \<Rightarrow> user_requests \<Rightarrow> real" where
  "get_wait_time current_time user_id reqs =
     (case reqs user_id of
        None \<Rightarrow> 0
      | Some ts \<Rightarrow>
          (let valid_requests = filter (\<lambda>t. current_time - t < 60) ts
           in if valid_requests = [] then 0
              else max 0 (60 - (current_time - Min (set valid_requests)))))"

text \<open>
  A user issuing requests at the instants \<open>ts\<close>, in this order: the booleans returned by
  the successive calls of \<open>is_allowed\<close> and the dictionary after the last one.
\<close>

fun requests :: "Config \<Rightarrow> int \<Rightarrow> real list \<Rightarrow> user_requests \<Rightarrow> bool list \<times> user_requests" where
  "requests cfg user_id [] reqs = ([], reqs)"
| "requests cfg user_id (t # ts) reqs =
     (let (b, reqs1) = is_allowed cfg t user_id reqs;
          (bs, reqs2) = requests cfg user_id ts reqs1
      in (b # bs, reqs2))"

text \<open>
  The user's current window at an instant: the recorded instants younger than 60
  seconds, in the order in which they were recorded, and their number.
\<close>

definition window :: "real \<Rightarrow> user_requests \<Rightarrow> int \<Rightarrow> real list" where
  "window current_time reqs user_id = filter (\<lambda>t. current_time - t < 60) (history reqs user_id)"

definition window_count :: "real \<Rightarrow> user_requests \<Rightarrow> int \<Rightarrow> int" where
  "window_count current_time reqs user_id = int (length (window current_time reqs user_id))"

text \<open>
  Concrete dictionaries and request instants for user 7: twenty requests recorded at
  instant 0, two requests recorded long ago, and the nineteen instants 1, ..., 19.
\<close>

definition full_minute :: user_requests where
  "full_minute = [7 \<mapsto> replicate 20 0]"

definition stale_requests :: user_requests where
  "stale_requests = [7 \<mapsto> [-100, -90]]"

definition later_requests :: "real list" where
  "later_requests = [1, 2, 3, 4, 5, 6, 7, 8, 9, 10, 11, 12, 13, 14, 15, 16, 17, 18, 19]"

section \<open>String operations, JSON values and exceptions\<close>

text \<open>
  \<open>str.lower\<close>, character by character. The letters \<open>A\<close> to \<open>Z\<close> (65 to 90) and
  the upper-case letters U+00C0 to U+00DE (192 to 222, without the multiplication sign
  215) go to the letter 32 code points higher; U+0130 goes to \<open>i\<close> followed by U+0307;
  U+0178, U+1E9E, U+212A and U+212B go to U+00FF, U+00DF, \<open>k\<close> and U+00E5. These are
  all the code points whose lower-case form has a code point below U+0100 and differs
  from them. Every other code point is left as it is: those below U+0100 are their own
  lower-case form, and those beyond have a lower-case form that lies entirely beyond
  U+00FF, so the lowered string holds a given word of code points below U+0100 exactly
  when the string that \<open>str.lower\<close> returns does. The code looks into a lowered string
  for such words only.
\<close>

definition upper_letter :: "int \<Rightarrow> bool" where
  "upper_letter c = (65 \<le> c \<and> c \<le> 90 \<or> 192 \<le> c \<and> c \<le> 222 \<and> c \<noteq> 215)"

definition wide_lower :: "(int \<times> ustring) list" where
  "wide_lower = [(0x130, [0x69, 0x307]), (0x178, [0xFF]), (0x1E9E, [0xDF]),
                 (0x212A, [0x6B]), (0x212B, [0xE5])]"

definition lower_char :: "int \<Rightarrow> ustring" where
  "lower_char c =
     (if upper_letter c then [c + 32]
      else (case map_of wide_lower c of Some ls \<Rightarrow> ls | None \<Rightarrow> [c]))"

definition lower :: "ustring \<Rightarrow> ustring" where
  "lower s = concat (map lower_char s)"

text \<open>\<open>s.startswith(p)\<close> and the substring test \<open>sub in s\<close> on strings.\<close>

definition startswith :: "ustring \<Rightarrow> ustring \<Rightarrow> bool" where
  "startswith s p = (take (length p) s = p)"

fun contains :: "ustring \<Rightarrow> ustring \<Rightarrow> bool" where
  "contains sub [] = (sub = [])"
| "contains sub (c # s) = (startswith (c # s) sub \<or> contains sub s)"

text \<open>
  The value \<open>json.loads\<close> returns. A number is an \<open>int\<close> or a \<open>float\<close> in Python; the
  code below only tests whether a number is zero and whether a value is a string, a list
  or a dictionary, so one constructor carries the number's value. A dictionary is the
  list of its entries in insertion order, which is the order \<open>items()\<close> iterates in;
  \<open>get\<close> returns the value of the first entry with the key (in a dictionary the keys
  are pairwise distinct). Python's \<open>None\<close> is \<open>JNull\<close>.
\<close>

datatype json =
    JNull
  | JBool bool
  | JNum real
  | JStr ustring
  | JArr "json list"
  | JObj "(ustring \<times> json) list"

text \<open>The exceptions that the modelled code and the library calls it makes can raise.\<close>

datatype exn =
    JSONDecodeError
  | TypeError
  | AttributeError
  | NameError
  | RecursionError
  | ClientError
  | OSError

text \<open>Truth value of a JSON value, as \<open>if v\<close> and \<open>a or b\<close> test it.\<close>

fun truthy :: "json \<Rightarrow> bool" where
  "truthy JNull = False"
| "truthy (JBool b) = b"
| "truthy (JNum r) = (r \<noteq> 0)"
| "truthy (JStr s) = (s \<noteq> [])"
| "truthy (JArr xs) = (xs \<noteq> [])"
| "truthy (JObj d) = (d \<noteq> [])"

text \<open>\<open>d.get(key)\<close> and \<open>d.get(key, default)\<close> on a dictionary.\<close>

definition dict_get :: "(ustring \<times> json) list \<Rightarrow> ustring \<Rightarrow> json \<Rightarrow> json" where
  "dict_get d key dflt = (case map_of d key of None \<Rightarrow> dflt | Some v \<Rightarrow> v)"

text \<open>
  \<open>sub in v\<close> for a string \<open>sub\<close>: substring test on a string, membership on a list,
  key membership on a dictionary; \<open>TypeError\<close> on a number, a boolean and \<open>None\<close>, which
  are not iterable.
\<close>

fun py_in :: "ustring \<Rightarrow> json \<Rightarrow> exn + bool" where
  "py_in sub (JStr s) = Inr (contains sub s)"
| "py_in sub (JArr xs) = Inr (JStr sub \<in> set xs)"
| "py_in sub (JObj d) = Inr (sub \<in> fst ` set d)"
| "py_in sub v = Inl TypeError"

text \<open>
  \<open>v[:100]\<close>: the first 100 characters of a string, the first 100 elements of a list;
  every other value raises (\<open>TypeError\<close>; for a dictionary, \<open>KeyError\<close> in the Python
  versions where a slice is hashable, which no handler of the code distinguishes).
\<close>

fun slice100 :: "json \<Rightarrow> exn + json" where
  "slice100 (JStr s) = Inr (JStr (take 100 s))"
| "slice100 (JArr xs) = Inr (JArr (take 100 xs))"
| "slice100 v = Inl TypeError"

text \<open>
  Whether a value can be a member of a \<open>set\<close>: lists and dictionaries are unhashable.
\<close>

fun hashable :: "json \<Rightarrow> bool" where
  "hashable (JArr xs) = False"
| "hashable (JObj d) = False"
| "hashable v = True"

section \<open>Regular expressions (the patterns given to re.findall)\<close>

text \<open>
  Every pattern of the code is a sequence of single-character classes, each taken once or
  under \<open>*\<close>, \<open>+\<close> or the lazy \<open>*?\<close>, around one capturing group. The characters of a
  pattern are characters of the source text, all below U+0100, and are kept as 8-bit
  characters; the text that is searched is a Python string. The flag of the functions
  below is \<open>re.IGNORECASE\<close>; the dot is used under \<open>re.DOTALL\<close> only and matches
  every character.
\<close>

datatype cls = Chr char | NotChr char | AnyChar | Space

datatype 'c atom = One 'c | Star 'c | Plus 'c | LazyStar 'c | GroupOpen | GroupClose

type_synonym pattern = "cls atom list"

text \<open>
  The code points \<open>\s\<close> matches in a \<open>str\<close>: tab, line feed, vertical tab, form feed,
  carriage return, the separators U+001C to U+001F, space, U+0085, U+00A0, and the
  space separators and line separators beyond U+00FF.
\<close>

definition whitespace :: "int list" where
  "whitespace = [0x09, 0x0A, 0x0B, 0x0C, 0x0D, 0x1C, 0x1D, 0x1E, 0x1F, 0x20, 0x85, 0xA0,
                 0x1680, 0x2000, 0x2001, 0x2002, 0x2003, 0x2004, 0x2005, 0x2006, 0x2007,
                 0x2008, 0x2009, 0x200A, 0x2028, 0x2029, 0x202F, 0x205F, 0x3000]"

text \<open>
  The code points that a pattern character matches under \<open>re.IGNORECASE\<close>: the
  character itself, its counterpart of the other case among the code points below
  U+0100 (the lower-case letters being 97 to 122 and 224 to 254 without the division
  sign 247), and the code points beyond that \<open>re\<close> takes for the same letter: the
  dotted capital and the dotless small i for \<open>i\<close>, the Kelvin sign for \<open>k\<close>, the long
  s for \<open>s\<close>, the Greek mu for the micro sign, the Angstrom sign for the a with ring,
  the capital sharp s for the sharp s, and the capital of the y with diaeresis.
\<close>

definition lower_letter :: "int \<Rightarrow> bool" where
  "lower_letter c = (97 \<le> c \<and> c \<le> 122 \<or> 224 \<le> c \<and> c \<le> 254 \<and> c \<noteq> 247)"

definition wide_variants :: "(int \<times> int list) list" where
  "wide_variants =
     [(0x69, [0x130, 0x131]), (0x49, [0x130, 0x131]),
      (0x6B, [0x212A]), (0x4B, [0x212A]),
      (0x73, [0x17F]), (0x53, [0x17F]),
      (0xB5, [0x39C, 0x3BC]),
      (0xE5, [0x212B]), (0xC5, [0x212B]),
      (0xDF, [0x1E9E]),
      (0xFF, [0x178])]"

definition case_variants :: "char \<Rightarrow> int list" where
  "case_variants p =
     (let c = of_char p in
      c # (if upper_letter c then [c + 32] else if lower_letter c then [c - 32] else [])
        @ (case map_of wide_variants c of Some ws \<Rightarrow> ws | None \<Rightarrow> []))"

text \<open>
  A pattern is compiled with its flags, as \<open>re\<close> does before it matches: each class
  becomes the set of code points it accepts, given by a list of the members or of the
  non-members.
\<close>

datatype charset = Among "int list" | NotAmong "int list" | Every

fun charset_of :: "bool \<Rightarrow> cls \<Rightarrow> charset" where
  "charset_of ic (Chr p) = Among (if ic then case_variants p else [of_char p])"
| "charset_of ic (NotChr p) = NotAmong (if ic then case_variants p else [of_char p])"
| "charset_of ic AnyChar = Every"
| "charset_of ic Space = Among whitespace"

definition compile :: "bool \<Rightarrow> pattern \<Rightarrow> charset atom list" where
  "compile ic p = map (map_atom (charset_of ic)) p"

fun charset_match :: "charset \<Rightarrow> int \<Rightarrow> bool" where
  "charset_match (Among cs) x = (x \<in> set cs)"
| "charset_match (NotAmong cs) x = (x \<notin> set cs)"
| "charset_match Every x = True"

text \<open>
  \<open>rmatch\<close> is the backtracking matcher of \<open>re\<close> on a compiled pattern, anchored at
  the start of the input: a greedy repetition tries the longest run first and gives
  characters back one by one, a lazy repetition tries the shortest run first. The
  arguments \<open>g\<close> and \<open>cap\<close> tell whether the group is open and hold its text so far,
  in reverse. The result is the text of the group and the input left after the match.
\<close>

function rmatch :: "charset atom list \<Rightarrow> ustring \<Rightarrow> bool \<Rightarrow> ustring \<Rightarrow> (ustring \<times> ustring) option" where
  "rmatch [] s g cap = Some (rev cap, s)"
| "rmatch (GroupOpen # as) s g cap = rmatch as s True []"
| "rmatch (GroupClose # as) s g cap = rmatch as s False cap"
| "rmatch (One c # as) [] g cap = None"
| "rmatch (One c # as) (x # xs) g cap =
     (if charset_match c x then rmatch as xs g (if g then x # cap else cap) else None)"
| "rmatch (Plus c # as) [] g cap = None"
| "rmatch (Plus c # as) (x # xs) g cap =
     (if charset_match c x then rmatch (Star c # as) xs g (if g then x # cap else cap) else None)"
| "rmatch (Star c # as) [] g cap = rmatch as [] g cap"
| "rmatch (Star c # as) (x # xs) g cap =
     (if charset_match c x
      then (case rmatch (Star c # as) xs g (if g then x # cap else cap) of
              Some r \<Rightarrow> Some r
            | None \<Rightarrow> rmatch as (x # xs) g cap)
      else rmatch as (x # xs) g cap)"
| "rmatch (LazyStar c # as) [] g cap = rmatch as [] g cap"
| "rmatch (LazyStar c # as) (x # xs) g cap =
     (case rmatch as (x # xs) g cap of
        Some r \<Rightarrow> Some r
      | None \<Rightarrow>
          (if charset_match c x
           then rmatch (LazyStar c # as) xs g (if g then x # cap else cap)
           else None))"
  by pat_completeness auto
termination
  by (relation "measure (\<lambda>(as, s, g, cap). length as + length s)") auto

text \<open>
  \<open>re.findall\<close> for a pattern with one group: the group's text of every match, scanning
  from left to right; after a match the scan resumes where the match ended, and where no
  match starts it moves on by one character. (After an empty match the scan would move on
  by one character; no pattern of the code matches the empty string.)
\<close>

function scan :: "charset atom list \<Rightarrow> ustring \<Rightarrow> ustring list" where
  "scan p [] =
     (case rmatch p [] False [] of
        Some (grp, rest) \<Rightarrow> [grp]
      | None \<Rightarrow> [])"
| "scan p (x # xs) =
     (case rmatch p (x # xs) False [] of
        Some (grp, rest) \<Rightarrow>
          grp # scan p (if length rest < length (x # xs) then rest else xs)
      | None \<Rightarrow> scan p xs)"
  by pat_completeness auto
termination
  by (relation "measure (\<lambda>(p, s). length s)") auto

definition findall :: "bool \<Rightarrow> pattern \<Rightarrow> ustring \<Rightarrow> ustring list" where
  "findall ic p s = scan (compile ic p) s"

text \<open>A literal piece of a pattern: each character taken once.\<close>

definition lit :: "string \<Rightarrow> pattern" where
  "lit s = map (\<lambda>c. One (Chr c)) s"

section \<open>Content extraction (snapchat\_downloader.py)\<close>

text \<open>
  A media item is the dictionary the extraction strategies build. The keys \<open>url\<close> and
  \<open>type\<close> are always present; \<open>thumbnail\<close> and \<open>description\<close> are set by the
  structured-data strategy only and \<open>source\<close> by the embedded-state strategy only
  (\<open>None\<close> here is an absent key). The url is whatever value the page supplied: the
  structured-data strategy does not check that it is a string.
\<close>

record media_item =
  url :: json
  type :: ustring
  thumbnail :: "json option"
  description :: "json option"
  source :: "ustring option"

text \<open>
  The two library calls whose results the extraction consumes and whose code is not part
  of the repository: \<open>soup_scripts html\<close> is the \<open>.string\<close> of each element that
  \<open>BeautifulSoup(html, 'lxml').find_all('script', type='application/ld+json')\<close> returns
  (\<open>None\<close> for an element without a single text child), or the exception the parser
  raises; \<open>json_loads s\<close> is the value of \<open>json.loads(s)\<close> or the exception it raises.
\<close>

record libs =
  soup_scripts :: "ustring \<Rightarrow> exn + ustring option list"
  json_loads :: "ustring \<Rightarrow> exn + json"

subsection \<open>Structured data: \_parse\_json\_item and \_extract\_json\_ld\<close>

text \<open>
  The test \<open>'http://' in url or 'https://' in url\<close>: \<open>or\<close> evaluates its second
  operand only when the first is false.
\<close>

definition url_check :: "json \<Rightarrow> exn + bool" where
  "url_check u =
     (case py_in (ustr ''http://'') u of
        Inl e \<Rightarrow> Inl e
      | Inr True \<Rightarrow> Inr True
      | Inr False \<Rightarrow> py_in (ustr ''https://'') u)"

text \<open>
  The dictionary that \<open>_parse_json_item\<close> appends, its values evaluated in the order
  written; the slice of the description raises unless it is a string or a list.
\<close>

definition json_ld_item :: "(ustring \<times> json) list \<Rightarrow> ustring \<Rightarrow> json \<Rightarrow> exn + media_item" where
  "json_ld_item d item_type u =
     (case slice100 (dict_get d (ustr ''description'') (JStr [])) of
        Inl e \<Rightarrow> Inl e
      | Inr descr \<Rightarrow>
          Inr \<lparr> url = u,
                type = (if contains (ustr ''video'') item_type then ustr ''video'' else ustr ''image''),
                thumbnail = Some (dict_get d (ustr ''thumbnailUrl'') JNull),
                description = Some descr,
                source = None \<rparr>)"

text \<open>
  \<open>_parse_json_item(item, items_list)\<close>: the list after the call, or the exception
  raised (the list is then unchanged, the append being the last action). \<open>item.get\<close>
  raises \<open>AttributeError\<close> unless the item is a dictionary, and so does \<open>.lower()\<close> unless
  the value under \<open>@type\<close> is a string. The url is \<open>item.get('contentUrl') or
  item.get('url')\<close>.
\<close>

definition parse_json_item :: "json \<Rightarrow> media_item list \<Rightarrow> exn + media_item list" where
  "parse_json_item item items_list =
     (case item of
        JObj d \<Rightarrow>
          (case dict_get d (ustr ''@type'') (JStr []) of
             JStr t \<Rightarrow>
               (let item_type = lower t in
                if item_type \<in> set [ustr ''videoobject'', ustr ''imageobject''] then
                  (let u = (if truthy (dict_get d (ustr ''contentUrl'') JNull)
                            then dict_get d (ustr ''contentUrl'') JNull
                            else dict_get d (ustr ''url'') JNull)
                   in if \<not> truthy u then Inr items_list
                      else
                        (case url_check u of
                           Inl e \<Rightarrow> Inl e
                         | Inr False \<Rightarrow> Inr items_list
                         | Inr True \<Rightarrow>
                             (case json_ld_item d item_type u of
                                Inl e \<Rightarrow> Inl e
                              | Inr new_item \<Rightarrow> Inr (items_list @ [new_item]))))
                else Inr items_list)
           | _ \<Rightarrow> Inl AttributeError)
      | _ \<Rightarrow> Inl AttributeError)"

text \<open>
  \<open>for item in data: self._parse_json_item(item, items)\<close>: the list after the loop and the
  exception that ended it, if any. The items appended before the exception stay.
\<close>

fun parse_json_items :: "json list \<Rightarrow> media_item list \<Rightarrow> media_item list \<times> exn option" where
  "parse_json_items [] items = (items, None)"
| "parse_json_items (x # xs) items =
     (case parse_json_item x items of
        Inl e \<Rightarrow> (items, Some e)
      | Inr items1 \<Rightarrow> parse_json_items xs items1)"

text \<open>
  The body of the inner \<open>try\<close> for one script element. \<open>json.loads(None)\<close> raises
  \<open>TypeError\<close>. A value that is neither a list nor a dictionary is ignored.
\<close>

definition script_body :: "(ustring \<Rightarrow> exn + json) \<Rightarrow> ustring option \<Rightarrow> media_item list
    \<Rightarrow> media_item list \<times> exn option" where
  "script_body loads script items =
     (case (case script of None \<Rightarrow> Inl TypeError | Some s \<Rightarrow> loads s) of
        Inl e \<Rightarrow> (items, Some e)
      | Inr (JArr xs) \<Rightarrow> parse_json_items xs items
      | Inr (JObj d) \<Rightarrow>
          (case parse_json_item (JObj d) items of
             Inl e \<Rightarrow> (items, Some e)
           | Inr items1 \<Rightarrow> (items1, None))
      | Inr _ \<Rightarrow> (items, None))"

text \<open>
  The loop over the script elements. The inner handler catches \<open>JSONDecodeError\<close> alone
  and continues with the next element; every other exception leaves the loop for the
  outer handler, whose \<open>pass\<close> is followed by \<open>return items\<close>.
\<close>

fun script_loop :: "(ustring \<Rightarrow> exn + json) \<Rightarrow> ustring option list \<Rightarrow> media_item list
    \<Rightarrow> media_item list" where
  "script_loop loads [] items = items"
| "script_loop loads (script # rest) items =
     (case script_body loads script items of
        (items1, None) \<Rightarrow> script_loop loads rest items1
      | (items1, Some e) \<Rightarrow>
          (if e = JSONDecodeError then script_loop loads rest items1 else items1))"

definition extract_json_ld :: "libs \<Rightarrow> ustring \<Rightarrow> media_item list" where
  "extract_json_ld l html =
     (case soup_scripts l html of
        Inl e \<Rightarrow> []
      | Inr script_tags \<Rightarrow> script_loop (json_loads l) script_tags [])"

subsection \<open>Embedded state: \_traverse\_json\_for\_media and \_extract\_js\_data\<close>

definition media_keys :: "ustring list" where
  "media_keys = map ustr [''url'', ''video'', ''image'', ''media'', ''src'']"

text \<open>\<open>isinstance(value, (dict, list))\<close>.\<close>

fun is_container :: "json \<Rightarrow> bool" where
  "is_container (JObj d) = True"
| "is_container (JArr xs) = True"
| "is_container v = False"

text \<open>
  \<open>_traverse_json_for_media(data, depth, max_depth)\<close>. The recursive calls pass
  \<open>depth + 1\<close> and no \<open>max_depth\<close>, which is then the default 10. In a dictionary, the
  \<open>elif\<close> that recurses into a nested dictionary or list belongs to the test of the key:
  a value under a key that contains one of the media keys is never descended into.
\<close>

fun traverse_json_for_media :: "json \<Rightarrow> nat \<Rightarrow> nat \<Rightarrow> media_item list"
  and traverse_entries :: "(ustring \<times> json) list \<Rightarrow> nat \<Rightarrow> media_item list"
  and traverse_elements :: "json list \<Rightarrow> nat \<Rightarrow> media_item list" where
  "traverse_json_for_media (JObj d) depth max_depth =
     (if depth > max_depth then [] else traverse_entries d depth)"
| "traverse_json_for_media (JArr xs) depth max_depth =
     (if depth > max_depth then [] else traverse_elements xs depth)"
| "traverse_json_for_media JNull depth max_depth = []"
| "traverse_json_for_media (JBool b) depth max_depth = []"
| "traverse_json_for_media (JNum r) depth max_depth = []"
| "traverse_json_for_media (JStr s) depth max_depth = []"
| "traverse_entries [] depth = []"
| "traverse_entries ((key, v) # kvs) depth =
     (let key_lower = lower key in
      (if \<exists>media_key \<in> set media_keys. contains media_key key_lower
       then (case v of
               JStr s \<Rightarrow>
                 (if startswith s (ustr ''http'')
                  then [\<lparr> url = JStr s,
                          type = (if contains (ustr ''video'') key_lower
                                  then ustr ''video'' else ustr ''image''),
                          thumbnail = None, description = None, source = Some (ustr ''json'') \<rparr>]
                  else [])
             | _ \<Rightarrow> [])
       else (if is_container v then traverse_json_for_media v (depth + 1) 10 else []))
      @ traverse_entries kvs depth)"
| "traverse_elements [] depth = []"
| "traverse_elements (x # xs) depth =
     traverse_json_for_media x (depth + 1) 10 @ traverse_elements xs depth"

text \<open>
  The four patterns of \<open>_extract_js_data\<close>, matched under \<open>re.DOTALL\<close> and case
  sensitively. A brace that opens no repetition count is a literal character.
\<close>

definition braces :: pattern where
  "braces = [GroupOpen] @ lit ''{'' @ [LazyStar AnyChar] @ lit ''}'' @ [GroupClose]"

definition js_patterns :: "pattern list" where
  "js_patterns =
     [lit ''window.__INITIAL_STATE__'' @ [Star Space] @ lit ''='' @ [Star Space] @ braces @ lit '';'',
      lit ''window.__PRELOADED_STATE__'' @ [Star Space] @ lit ''='' @ [Star Space] @ braces @ lit '';'',
      lit ''var'' @ [Plus Space] @ lit ''__DATA__'' @ [Star Space] @ lit ''='' @ [Star Space] @ braces @ lit '';'',
      lit ''data:'' @ [Star Space] @ braces @ [Star Space] @ lit '','' @ [Star Space] @ lit ''error:'']"

text \<open>
  For each pattern and each match: parse the fragment and traverse it; the bare \<open>except\<close>
  skips a fragment on any exception.
\<close>

definition extract_js_data :: "libs \<Rightarrow> ustring \<Rightarrow> media_item list" where
  "extract_js_data l html =
     concat (map (\<lambda>pattern.
       concat (map (\<lambda>m. case json_loads l m of
                           Inl e \<Rightarrow> []
                         | Inr data \<Rightarrow> traverse_json_for_media data 0 10)
                   (findall False pattern html)))
       js_patterns)"

subsection \<open>Direct patterns: \_extract\_direct\_urls\<close>

text \<open>
  The group \<open>(https://[^"]+\.EXT[^"]*)\<close> followed by the closing quote, and the ten
  patterns, matched under \<open>re.IGNORECASE\<close>.
\<close>

definition url_group :: "string \<Rightarrow> pattern" where
  "url_group ext =
     [GroupOpen] @ lit ''https://'' @ [Plus (NotChr (CHR 0x22))] @ lit ext
       @ [Star (NotChr (CHR 0x22)), GroupClose, One (Chr (CHR 0x22))]"

definition video_patterns :: "pattern list" where
  \<open>video_patterns =
     [lit ''"videoUrl":"'' @ url_group ''.mp4'',
      lit ''src="'' @ url_group ''.mp4'',
      lit ''data-video-url="'' @ url_group ''.mp4'',
      lit ''property="og:video" content="'' @ url_group ''.mp4'',
      lit ''<source'' @ [Plus (NotChr CHR ''>'')] @ lit ''src="'' @ url_group ''.mp4'']\<close>

definition image_patterns :: "pattern list" where
  \<open>image_patterns =
     [lit ''"imageUrl":"'' @ url_group ''.jpg'',
      lit ''src="'' @ url_group ''.jpg'',
      lit ''data-image-url="'' @ url_group ''.jpg'',
      lit ''property="og:image" content="'' @ url_group ''.jpg'',
      lit ''<img'' @ [Plus (NotChr CHR ''>'')] @ lit ''src="'' @ url_group ''.jpg'']\<close>

definition direct_item :: "ustring \<Rightarrow> ustring \<Rightarrow> media_item" where
  "direct_item kind m =
     \<lparr> url = JStr m, type = kind, thumbnail = None, description = None, source = None \<rparr>"

definition extract_direct_urls :: "ustring \<Rightarrow> media_item list" where
  "extract_direct_urls html =
     concat (map (\<lambda>pattern. map (direct_item (ustr ''video'')) (findall True pattern html)) video_patterns)
     @ concat (map (\<lambda>pattern. map (direct_item (ustr ''image'')) (findall True pattern html)) image_patterns)"

subsection \<open>The pipeline: the body of fetch\_public\_content\<close>

text \<open>
  The de-duplication loop. \<open>item['url'] not in seen_urls\<close> hashes the url and raises
  \<open>TypeError\<close> on a list or a dictionary. (Set membership compares with \<open>==\<close>, which
  is equality of the values for the strings, lists and dictionaries that a url can be.)
\<close>

fun unique_loop :: "media_item list \<Rightarrow> json set \<Rightarrow> media_item list \<Rightarrow> exn + media_item list" where
  "unique_loop [] seen_urls unique_items = Inr unique_items"
| "unique_loop (item # rest) seen_urls unique_items =
     (if \<not> hashable (url item) then Inl TypeError
      else if url item \<notin> seen_urls
           then unique_loop rest (insert (url item) seen_urls) (unique_items @ [item])
           else unique_loop rest seen_urls unique_items)"

text \<open>
  Lines 45 to 65 of \<open>fetch_public_content\<close> on the text of the page, with the function's
  handler: the three strategies in their order, the de-duplication, the cut to 15 items;
  \<open>[]\<close> on any exception.
\<close>

definition extract_media :: "libs \<Rightarrow> ustring \<Rightarrow> media_item list" where
  "extract_media l html =
     (let media_items = extract_json_ld l html @ extract_js_data l html @ extract_direct_urls html
      in case unique_loop media_items {} [] of
           Inl e \<Rightarrow> []
         | Inr unique_items \<Rightarrow> take 15 unique_items)"

text \<open>
  \<open>fetch_public_content\<close> on the outcome of the request: an exception of the client, or
  the status and the text of the response.
\<close>

definition fetch_public_content :: "libs \<Rightarrow> exn + int \<times> ustring \<Rightarrow> media_item list" where
  "fetch_public_content l response =
     (case response of
        Inl e \<Rightarrow> []
      | Inr (status, html) \<Rightarrow> if status \<noteq> 200 then [] else extract_media l html)"

subsection \<open>First occurrences, and concrete pages\<close>

text \<open>
  The items of \<open>xs\<close> whose url is neither in \<open>seen\<close> nor the url of an earlier item of
  \<open>xs\<close>, in the order of \<open>xs\<close>: what "each url once, in first-discovered order" picks
  from a list of discovered items.
\<close>

definition first_occurrences :: "json set \<Rightarrow> media_item list \<Rightarrow> media_item list" where
  "first_occurrences seen xs =
     map (\<lambda>i. xs ! i)
       (filter (\<lambda>i. url (xs ! i) \<notin> seen \<union> url ` set (take i xs)) [0..<length xs])"

text \<open>
  Concrete structured-data blocks and two embedded-state fragments, with the values
  \<open>json.loads\<close> returns for them; every other text is rejected as invalid JSON.
\<close>

definition ld_video_block :: ustring where
  \<open>ld_video_block = ustr ''{"@type":"VideoObject","contentUrl":"https://c/v.mp4"}''\<close>

definition ld_list_url_block :: ustring where
  \<open>ld_list_url_block = ustr ''{"@type":"VideoObject","contentUrl":["http://"]}''\<close>

definition ld_relative_block :: ustring where
  \<open>ld_relative_block = ustr ''{"@type":"ImageObject","url":"/i?u=http://"}''\<close>

definition state_fragment :: ustring where
  \<open>state_fragment = ustr ''{"imageSrc":"https://c/i.png"}''\<close>

definition word_fragment :: ustring where
  \<open>word_fragment = ustr ''{"url":"httpx"}''\<close>

definition demo_loads :: "ustring \<Rightarrow> exn + json" where
  "demo_loads s =
     (if s = ld_video_block
      then Inr (JObj [(ustr ''@type'', JStr (ustr ''VideoObject'')),
                      (ustr ''contentUrl'', JStr (ustr ''https://c/v.mp4''))])
      else if s = ld_list_url_block
      then Inr (JObj [(ustr ''@type'', JStr (ustr ''VideoObject'')),
                      (ustr ''contentUrl'', JArr [JStr (ustr ''http://'')])])
      else if s = ld_relative_block
      then Inr (JObj [(ustr ''@type'', JStr (ustr ''ImageObject'')),
                      (ustr ''url'', JStr (ustr ''/i?u=http://''))])
      else if s = state_fragment
      then Inr (JObj [(ustr ''imageSrc'', JStr (ustr ''https://c/i.png''))])
      else if s = word_fragment
      then Inr (JObj [(ustr ''url'', JStr (ustr ''httpx''))])
      else if s = ustr ''[1]'' then Inr (JArr [JNum 1])
      else Inl JSONDecodeError)"

text \<open>
  The script elements of the pages below, as the HTML parser returns them: the text
  between each \<open><script type="application/ld+json">\<close> and the next \<open></script>\<close>.
\<close>

definition ld_script_pattern :: pattern where
  \<open>ld_script_pattern =
     lit ''<script type="application/ld+json">'' @ [GroupOpen, LazyStar AnyChar, GroupClose]
       @ lit ''</script>''\<close>

definition demo_libs :: libs where
  "demo_libs = \<lparr> soup_scripts = (\<lambda>html. Inr (map Some (findall False ld_script_pattern html))),
                 json_loads = demo_loads \<rparr>"

text \<open>
  A page with one structured-data video, an embedded-state image under the key
  \<open>imageSrc\<close>, and a \<open>video\<close> element whose \<open>src\<close> is the url of the structured-data
  video again.
\<close>

definition demo_page :: ustring where
  \<open>demo_page = ustr ''<script type="application/ld+json">{"@type":"VideoObject","contentUrl":"https://c/v.mp4"}</script><script>window.__INITIAL_STATE__ = {"imageSrc":"https://c/i.png"};</script><video src="https://c/v.mp4">''\<close>

text \<open>
  Two pages with a structured-data video block, one of them with the block \<open>[1]\<close> (valid
  JSON, but a list of a number where JSON-LD has objects) in front of it.
\<close>

definition page_good_only :: ustring where
  \<open>page_good_only = ustr ''<script type="application/ld+json">{"@type":"VideoObject","contentUrl":"https://c/v.mp4"}</script>''\<close>

definition page_bad_first :: ustring where
  \<open>page_bad_first = ustr ''<script type="application/ld+json">[1]</script><script type="application/ld+json">{"@type":"VideoObject","contentUrl":"https://c/v.mp4"}</script>''\<close>

text \<open>
  A page whose structured-data block gives \<open>contentUrl\<close> as a list, next to a \<open>video\<close>
  element that the direct patterns match.
\<close>

definition page_list_url :: ustring where
  \<open>page_list_url = ustr ''<script type="application/ld+json">{"@type":"VideoObject","contentUrl":["http://"]}</script><video src="https://c/v.mp4">''\<close>

text \<open>
  A page with a relative url in a structured-data block, an embedded-state fragment
  whose entry \<open>url\<close> holds the word \<open>httpx\<close>, and a \<open>video\<close> element whose \<open>src\<close> is
  written with the long s (U+017F) in the scheme.
\<close>

definition long_s_url :: ustring where
  "long_s_url = ustr ''http'' @ [0x17F] @ ustr ''://c/v.mp4''"

definition page_loose_urls :: ustring where
  \<open>page_loose_urls =
     ustr ''<script type="application/ld+json">{"@type":"ImageObject","url":"/i?u=http://"}</script><script>window.__INITIAL_STATE__ = {"url":"httpx"};</script><video src="''
     @ long_s_url @ ustr ''">''\<close>

text \<open>
  A page with sixteen \<open>src\<close> attributes that the direct patterns match, each with a url
  of its own, \<open>https://a.mp4\<close> to \<open>https://p.mp4\<close>.
\<close>

definition numbered_url :: "char \<Rightarrow> ustring" where
  "numbered_url c = ustr ''https://'' @ ustr [c] @ ustr ''.mp4''"

definition page_sixteen :: ustring where
  \<open>page_sixteen =
     concat (map (\<lambda>c. ustr ''src="'' @ numbered_url c @ ustr ''"'') ''abcdefghijklmnop'')\<close>

definition video_item :: media_item where
  "video_item = \<lparr> url = JStr (ustr ''https://c/v.mp4''), type = ustr ''video'',
                    thumbnail = Some JNull, description = Some (JStr []), source = None \<rparr>"

definition image_item :: media_item where
  "image_item = \<lparr> url = JStr (ustr ''https://c/i.png''), type = ustr ''image'',
                    thumbnail = None, description = None, source = Some (ustr ''json'') \<rparr>"

definition relative_item :: media_item where
  "relative_item = \<lparr> url = JStr (ustr ''/i?u=http://''), type = ustr ''image'',
                       thumbnail = Some JNull, description = Some (JStr []), source = None \<rparr>"

definition word_item :: media_item where
  "word_item = \<lparr> url = JStr (ustr ''httpx''), type = ustr ''image'',
                   thumbnail = None, description = None, source = Some (ustr ''json'') \<rparr>"

text \<open>
  \<open>ci_startswith s p\<close>: the string \<open>s\<close> begins with the word \<open>p\<close> as a pattern matches
  it under \<open>re.IGNORECASE\<close>, each code point being one of the variants of the character
  of \<open>p\<close> at its place. For \<open>https://\<close> these are \<open>h\<close> or \<open>H\<close>, twice \<open>t\<close> or \<open>T\<close>,
  \<open>p\<close> or \<open>P\<close>, then \<open>s\<close>, \<open>S\<close> or the long s U+017F, then \<open>://\<close>.
\<close>

definition ci_startswith :: "ustring \<Rightarrow> string \<Rightarrow> bool" where
  "ci_startswith s p = list_all2 (\<lambda>x c. x \<in> set (case_variants c)) (take (length p) s) p"

text \<open>
  The property of the specification: the url is a string that begins with \<open>http://\<close>
  or with \<open>https://\<close>.
\<close>

definition scheme_url :: "json \<Rightarrow> bool" where
  "scheme_url u = (case u of
       JStr s \<Rightarrow> startswith s (ustr ''http://'') \<or> startswith s (ustr ''https://'')
     | _ \<Rightarrow> False)"

text \<open>
  What each strategy guarantees about the url of an item it emits. Structured data: a
  string that contains \<open>http://\<close> or \<open>https://\<close> somewhere, or a list or a
  dictionary (which the membership test accepts when it has the scheme as an element or
  a key). Embedded state: a string that begins with \<open>http\<close>. Direct patterns: a string
  that begins with \<open>https://\<close> as \<open>re.IGNORECASE\<close> matches it.
\<close>

definition ld_url :: "json \<Rightarrow> bool" where
  "ld_url u = (case u of
       JStr s \<Rightarrow> contains (ustr ''http://'') s \<or> contains (ustr ''https://'') s
     | JArr xs \<Rightarrow> True
     | JObj d \<Rightarrow> True
     | _ \<Rightarrow> False)"

definition js_url :: "json \<Rightarrow> bool" where
  "js_url u = (case u of JStr s \<Rightarrow> startswith s (ustr ''http'') | _ \<Rightarrow> False)"

definition direct_url :: "json \<Rightarrow> bool" where
  "direct_url u = (case u of JStr s \<Rightarrow> ci_startswith s ''https://'' | _ \<Rightarrow> False)"

text \<open>
  Two embedded-state values with the same entry \<open>mediaUrl\<close> one level below the root:
  under the key \<open>snapUrls\<close>, which contains the media key \<open>url\<close>, and under the key
  \<open>snap\<close>, which contains none.
\<close>

definition state_under_media_key :: json where
  "state_under_media_key =
     JObj [(ustr ''snapUrls'', JObj [(ustr ''mediaUrl'', JStr (ustr ''https://c/v.mp4''))])]"

definition state_under_plain_key :: json where
  "state_under_plain_key =
     JObj [(ustr ''snap'', JObj [(ustr ''mediaUrl'', JStr (ustr ''https://c/v.mp4''))])]"

definition state_item :: media_item where
  "state_item = \<lparr> url = JStr (ustr ''https://c/v.mp4''), type = ustr ''image'',
                    thumbnail = None, description = None, source = Some (ustr ''json'') \<rparr>"

section \<open>Media download (snapchat\_downloader.py, download\_media)\<close>

subsection \<open>Module namespaces\<close>

text \<open>
  A free name in a function body is looked up in the namespace of the module that
  defines the function, then among the builtins; \<open>config\<close> is not a builtin, so an
  unbound \<open>config\<close> raises \<open>NameError\<close>. The objects a module-level name can be bound
  to are told apart only as far as the lookups below need.
\<close>

datatype pyobj =
    PyModule string
  | PyClass string
  | PyFunction string
  | PyConfig Config

type_synonym namespace = "string \<rightharpoonup> pyobj"

text \<open>
  The names that lines 1 to 13 of snapchat\_downloader.py bind at module level: the
  imports and the class. The module does not import \<open>config\<close>.
\<close>

definition downloader_globals :: namespace where
  "downloader_globals = map_of
     [(''aiohttp'', PyModule ''aiohttp''),
      (''asyncio'', PyModule ''asyncio''),
      (''re'', PyModule ''re''),
      (''json'', PyModule ''json''),
      (''hashlib'', PyModule ''hashlib''),
      (''Dict'', PyClass ''typing.Dict''),
      (''List'', PyClass ''typing.List''),
      (''Optional'', PyClass ''typing.Optional''),
      (''Tuple'', PyClass ''typing.Tuple''),
      (''BeautifulSoup'', PyClass ''bs4.BeautifulSoup''),
      (''aiofiles'', PyModule ''aiofiles''),
      (''Path'', PyClass ''pathlib.Path''),
      (''time'', PyModule ''time''),
      (''urlparse'', PyFunction ''urllib.parse.urlparse''),
      (''unquote'', PyFunction ''urllib.parse.unquote''),
      (''SnapchatDownloader'', PyClass ''SnapchatDownloader'')]"

text \<open>
  The expression \<open>config.FIELD\<close> evaluated in a namespace: \<open>NameError\<close> when the name
  is unbound, \<open>AttributeError\<close> when it is bound to an object without the field.
\<close>

definition config_attr :: "namespace \<Rightarrow> (Config \<Rightarrow> 'a) \<Rightarrow> exn + 'a" where
  "config_attr g field =
     (case g ''config'' of
        None \<Rightarrow> Inl NameError
      | Some (PyConfig c) \<Rightarrow> Inr (field c)
      | Some _ \<Rightarrow> Inl AttributeError)"

subsection \<open>Responses and files\<close>

text \<open>
  What \<open>download_media\<close> reads of the response to its request: the status, the
  \<open>Content-Type\<close> header (\<open>''\<close> when absent), the chunks of bytes that
  \<open>iter_chunked\<close> yields and the exception that ends the stream after them, if any.
  The file system is a map from paths to contents. Writes and \<open>unlink\<close> succeed; opening the destination may
  fail.
\<close>

record response =
  status :: int
  content_type :: ustring
  chunks :: "string list"
  stream_error :: "exn option"

type_synonym files = "ustring \<rightharpoonup> string"

text \<open>
  \<open>Path(directory) / name\<close> for a directory without a trailing slash and a relative
  name without empty or dot components, which is what the caller supplies.
\<close>

definition path_join :: "ustring \<Rightarrow> ustring \<Rightarrow> ustring" where
  "path_join directory name = directory @ ustr ''/'' @ name"

text \<open>
  The extension: from the content type, else the suffix of the url's path (the library
  expression \<open>Path(urlparse(url).path).suffix\<close>, a parameter here), else \<open>.mp4\<close>.
\<close>

definition extension :: "(ustring \<Rightarrow> ustring) \<Rightarrow> ustring \<Rightarrow> ustring \<Rightarrow> ustring" where
  "extension url_suffix ctype address =
     (if contains (ustr ''video'') ctype then ustr ''.mp4''
      else if contains (ustr ''image'') ctype
           then (if contains (ustr ''jpeg'') ctype then ustr ''.jpg'' else ustr ''.png'')
           else (let ext = url_suffix address in if ext = [] then ustr ''.mp4'' else ext))"

subsection \<open>The streaming loop and download\_media\<close>

datatype stream_outcome = Completed | Oversize | Raised exn

text \<open>
  The loop over the chunks, the destination being open: an empty chunk is skipped; a
  chunk is written, the total is increased, and when the total exceeds
  \<open>config.MAX_FILE_SIZE\<close> the file is closed and unlinked and the function returns. An
  exception leaves the loop with the file as written so far.
\<close>

fun stream_chunks :: "namespace \<Rightarrow> ustring \<Rightarrow> string list \<Rightarrow> exn option \<Rightarrow> int \<Rightarrow> files
    \<Rightarrow> stream_outcome \<times> files" where
  "stream_chunks g filepath [] err total_size fs =
     (case err of None \<Rightarrow> (Completed, fs) | Some e \<Rightarrow> (Raised e, fs))"
| "stream_chunks g filepath (chunk # rest) err total_size fs =
     (if chunk = [] then stream_chunks g filepath rest err total_size fs
      else
        (let fs1 = fs(filepath \<mapsto> (case fs filepath of None \<Rightarrow> [] | Some written \<Rightarrow> written) @ chunk);
             total_size1 = total_size + int (length chunk)
         in case config_attr g MAX_FILE_SIZE of
              Inl e \<Rightarrow> (Raised e, fs1)
            | Inr max_file_size \<Rightarrow>
                if total_size1 > max_file_size then (Oversize, fs1(filepath := None))
                else stream_chunks g filepath rest err total_size1 fs1))"

text \<open>
  \<open>download_media(url, filename)\<close> in the namespace \<open>g\<close> of its module (the url is
  \<open>address\<close> below, \<open>url\<close> being the field of a media item): the returned
  path (\<open>None\<close> for absence) and the file system after the call. The inputs are the
  outcome of the request (an exception of the client or the response) and the exception
  that opening the destination raises, if any. The handler of the function turns every
  exception into \<open>None\<close>.
\<close>

definition download_media :: "namespace \<Rightarrow> (ustring \<Rightarrow> ustring) \<Rightarrow> ustring \<Rightarrow> ustring
    \<Rightarrow> exn + response \<Rightarrow> exn option \<Rightarrow> files \<Rightarrow> ustring option \<times> files" where
  "download_media g url_suffix address filename request open_error fs =
     (case request of
        Inl e \<Rightarrow> (None, fs)
      | Inr response \<Rightarrow>
          if status response \<noteq> 200 then (None, fs)
          else
            (let ext = extension url_suffix (content_type response) address in
             case config_attr g TEMP_DIR of
               Inl e \<Rightarrow> (None, fs)
             | Inr temp_dir \<Rightarrow>
                 (let filepath = path_join temp_dir (filename @ ext) in
                  case open_error of
                    Some e \<Rightarrow> (None, fs)
                  | None \<Rightarrow>
                      (case stream_chunks g filepath (chunks response) (stream_error response) 0
                              (fs(filepath \<mapsto> [])) of
                         (Completed, fs1) \<Rightarrow>
                           (case fs1 filepath of
                              None \<Rightarrow> (None, fs1)
                            | Some written \<Rightarrow>
                                (if length written > 0 then Some filepath else None, fs1))
                       | (Oversize, fs1) \<Rightarrow> (None, fs1)
                       | (Raised e, fs1) \<Rightarrow> (None, fs1)))))"




section \<open>Delivery (telegram\_bot.py, handle\_message, lines 283 to 336)\<close>

text \<open>\<open>str(n)\<close> for an integer and \<open>int(x)\<close> for a float, which truncates toward zero.\<close>

definition digit :: "nat \<Rightarrow> char" where
  "digit n = ''0123456789'' ! (n mod 10)"

function str_nat :: "nat \<Rightarrow> string" where
  "str_nat n = (if n < 10 then [digit n] else str_nat (n div 10) @ [digit n])"
  by pat_completeness auto
termination
  by (relation "measure (\<lambda>n. n)") auto

definition str_int :: "int \<Rightarrow> string" where
  "str_int i = (if i < 0 then CHR ''-'' # str_nat (nat (- i)) else str_nat (nat i))"

definition int_of_float :: "real \<Rightarrow> int" where
  "int_of_float x = (if 0 \<le> x then \<lfloor>x\<rfloor> else \<lceil>x\<rceil>)"

text \<open>
  The file name \<open>f"{user_id}_{int(datetime.now().timestamp())}_{idx}"\<close>, a string of
  digits, signs and underscores.
\<close>

definition item_filename :: "int \<Rightarrow> real \<Rightarrow> nat \<Rightarrow> ustring" where
  "item_filename user_id now idx =
     ustr (str_int user_id @ ''_'' @ str_int (int_of_float now) @ ''_'' @ str_int (int idx))"

text \<open>
  The collaborators of the loop. \<open>download idx u filename fs\<close> is the call
  \<open>self.downloader.download_media(item['url'], filename)\<close> of the iteration \<open>idx\<close> on the
  file system \<open>fs\<close>: it returns a path or \<open>None\<close> and never raises. \<open>relay idx\<close> is the
  exception that opening the file and sending it with \<open>reply_video\<close> or \<open>reply_photo\<close>
  raises in that iteration, if any. \<open>clock idx\<close> is the instant the iteration reads.
\<close>

type_synonym downloader = "nat \<Rightarrow> json \<Rightarrow> ustring \<Rightarrow> files \<Rightarrow> ustring option \<times> files"

datatype reply = ReplyVideo ustring | ReplyPhoto ustring

text \<open>
  One iteration: the reply sent (\<open>None\<close> when the iteration ends in \<open>continue\<close>) and the
  file system afterwards. The file is unlinked after a reply that succeeded; when the
  reply raises, the handler continues and the file stays.
\<close>

definition deliver_item :: "downloader \<Rightarrow> (nat \<Rightarrow> exn option) \<Rightarrow> int \<Rightarrow> (nat \<Rightarrow> real) \<Rightarrow> nat
    \<Rightarrow> media_item \<Rightarrow> files \<Rightarrow> reply option \<times> files" where
  "deliver_item download relay user_id clock idx item fs =
     (let filename = item_filename user_id (clock idx) idx;
          (filepath, fs1) = download idx (url item) filename fs
      in case filepath of
           None \<Rightarrow> (None, fs1)
         | Some p \<Rightarrow>
             if fs1 p = None then (None, fs1)
             else (case relay idx of
                     Some e \<Rightarrow> (None, fs1)
                   | None \<Rightarrow>
                       (Some (if type item = ustr ''video'' then ReplyVideo p else ReplyPhoto p),
                        fs1(p := None))))"

text \<open>
  The loop over \<open>enumerate(media_items[:10])\<close>: the replies sent, each with the index of
  its item, the counter \<open>success_count\<close> and the file system at the end.
\<close>

fun deliver_loop :: "downloader \<Rightarrow> (nat \<Rightarrow> exn option) \<Rightarrow> int \<Rightarrow> (nat \<Rightarrow> real) \<Rightarrow> nat
    \<Rightarrow> media_item list \<Rightarrow> int \<Rightarrow> files \<Rightarrow> (nat \<times> reply) list \<times> int \<times> files" where
  "deliver_loop download relay user_id clock idx [] success_count fs = ([], success_count, fs)"
| "deliver_loop download relay user_id clock idx (item # rest) success_count fs =
     (case deliver_item download relay user_id clock idx item fs of
        (None, fs1) \<Rightarrow> deliver_loop download relay user_id clock (idx + 1) rest success_count fs1
      | (Some r, fs1) \<Rightarrow>
          (case deliver_loop download relay user_id clock (idx + 1) rest (success_count + 1) fs1 of
             (sent, n, fs2) \<Rightarrow> ((idx, r) # sent, n, fs2)))"

text \<open>The numbers of the final message: found, successfully downloaded, failed.\<close>

record summary =
  found :: int
  succeeded :: int
  failed :: int

definition deliver :: "downloader \<Rightarrow> (nat \<Rightarrow> exn option) \<Rightarrow> int \<Rightarrow> (nat \<Rightarrow> real)
    \<Rightarrow> media_item list \<Rightarrow> files \<Rightarrow> (nat \<times> reply) list \<times> summary \<times> files" where
  "deliver download relay user_id clock media_items fs =
     (case deliver_loop download relay user_id clock 0 (take 10 media_items) 0 fs of
        (sent, success_count, fs1) \<Rightarrow>
          (sent,
           \<lparr> found = int (length media_items),
             succeeded = success_count,
             failed = int (length media_items) - success_count \<rparr>,
           fs1))"

text \<open>
  The downloader of the bot: \<open>download_media\<close> in the namespace \<open>g\<close>, on a string url
  (a request for anything else raises inside \<open>download_media\<close>, whose handler returns
  \<open>None\<close>), with the outcome of the request and of opening the file for each iteration.
\<close>

definition bot_downloader :: "namespace \<Rightarrow> (ustring \<Rightarrow> ustring) \<Rightarrow> (nat \<Rightarrow> exn + response)
    \<Rightarrow> (nat \<Rightarrow> exn option) \<Rightarrow> downloader" where
  "bot_downloader g url_suffix requests_of open_errors idx u filename fs =
     (case u of
        JStr address \<Rightarrow> download_media g url_suffix address filename (requests_of idx) (open_errors idx) fs
      | _ \<Rightarrow> (None, fs))"




section \<open>Properties of the rate limiter\<close>

lemma hist_upd [simp]: "history (reqs(u \<mapsto> l)) u = l"
  by (simp add: history_def)

lemma is_allowed_under:
  assumes "int (length (filter (\<lambda>t. now - t < 60) (history reqs u))) < REQUESTS_PER_MINUTE cfg"
  shows "fst (is_allowed cfg now u reqs) = True"
    and "history (snd (is_allowed cfg now u reqs)) u = filter (\<lambda>t. now - t < 60) (history reqs u) @ [now]"
  using assms by (auto simp: is_allowed_def Let_def history_def split: option.splits)

lemma is_allowed_at_limit:
  assumes "int (length (filter (\<lambda>t. now - t < 60) (history reqs u))) \<ge> REQUESTS_PER_MINUTE cfg"
  shows "fst (is_allowed cfg now u reqs) = False"
    and "history (snd (is_allowed cfg now u reqs)) u = filter (\<lambda>t. now - t < 60) (history reqs u)"
  using assms by (auto simp: is_allowed_def Let_def history_def split: option.splits)

lemma requests_from:
  assumes "\<forall>a\<in>set (history reqs u) \<union> set ts. \<forall>t\<in>set ts. t - a < 60"
    and "int (length (history reqs u) + length ts) \<le> REQUESTS_PER_MINUTE cfg"
  shows "fst (requests cfg u ts reqs) = replicate (length ts) True
       \<and> history (snd (requests cfg u ts reqs)) u = history reqs u @ ts"
  using assms
proof (induction ts arbitrary: reqs)
  case Nil
  then show ?case by simp
next
  case (Cons t ts)
  have keep: "filter (\<lambda>x. t - x < 60) (history reqs u) = history reqs u"
    using Cons.prems(1) by (auto simp: filter_id_conv)
  have under: "int (length (filter (\<lambda>x. t - x < 60) (history reqs u))) < REQUESTS_PER_MINUTE cfg"
    using Cons.prems(2) keep by simp
  obtain b r1 where r1: "is_allowed cfg t u reqs = (b, r1)" by force
  have b: "b = True" and h1: "history r1 u = history reqs u @ [t]"
    using is_allowed_under[OF under] r1 keep by auto
  have "fst (requests cfg u ts r1) = replicate (length ts) True
       \<and> history (snd (requests cfg u ts r1)) u = history r1 u @ ts"
    apply (rule Cons.IH)
    using Cons.prems h1 by auto
  then show ?case using r1 b h1 by (auto simp: split_beta)
qed


lemma get_wait_time_history:
  "get_wait_time now u reqs =
     (if window now reqs u = [] then 0
      else max 0 (60 - (now - Min (set (window now reqs u)))))"
  by (simp add: get_wait_time_def window_def history_def Let_def split: option.splits)

lemma window_Min_recent:
  assumes "window now reqs u \<noteq> []"
  shows "now - Min (set (window now reqs u)) < 60"
proof -
  have "Min (set (window now reqs u)) \<in> set (window now reqs u)"
    using assms by (intro Min_in) auto
  then show ?thesis by (simp add: window_def)
qed

text \<open>
  Claim C3, as amended. \<open>get_wait_time\<close> never returns a negative duration. It returns
  0 exactly when the user has no recorded instant younger than 60 seconds (no entry, an
  empty entry, or only expired instants); otherwise it returns the seconds until the
  oldest instant of the current window expires, \<open>60 - (now - oldest)\<close>, which is
  positive. The per-minute ceiling plays no part: \<open>get_wait_time\<close> never reads it.
\<close>

theorem get_wait_time_oldest_in_window:
  "0 \<le> get_wait_time now u reqs
   \<and> (window now reqs u = [] \<longrightarrow> get_wait_time now u reqs = 0)
   \<and> (window now reqs u \<noteq> [] \<longrightarrow>
        get_wait_time now u reqs = 60 - (now - Min (set (window now reqs u)))
        \<and> 0 < get_wait_time now u reqs)"
  using window_Min_recent[of now reqs u]
  by (auto simp: get_wait_time_history)

text \<open>
  Both cases at user 7 with instants 0 and 3 recorded: at instant 5 the window is not
  empty and the wait is 55 seconds; at instant 70 the window is empty and the wait is 0.
\<close>

theorem get_wait_time_oldest_in_window_witness:
  "window 5 [7 \<mapsto> [0, 3]] 7 \<noteq> [] \<and> get_wait_time 5 7 [7 \<mapsto> [0, 3]] = 55
   \<and> window 70 [7 \<mapsto> [0, 3]] 7 = [] \<and> get_wait_time 70 7 [7 \<mapsto> [0, 3]] = 0"
  using get_wait_time_oldest_in_window[of 5 7 "[7 \<mapsto> [0, 3]]"]
        get_wait_time_oldest_in_window[of 70 7 "[7 \<mapsto> [0, 3]]"]
  by (simp add: window_def history_def)

text \<open>
  Claim C3 as stated fails: a user with a single request in the window is under the
  ceiling of 20 requests per minute, and the wait time reported is 55 seconds, not 0.
\<close>

theorem get_wait_time_under_limit_counterexample:
  "window_count 5 [7 \<mapsto> [0]] 7 < REQUESTS_PER_MINUTE config \<and> get_wait_time 5 7 [7 \<mapsto> [0]] = 55"
  by (simp add: window_count_def window_def history_def config_def get_wait_time_def)

text \<open>
  Claim C6. When every instant recorded for the user is 60 seconds old or older at the
  time of the check, \<open>is_allowed\<close> returns true, whatever the history holds (a user
  rejected at the ceiling before included), and the history becomes the current instant
  alone. The ceiling must be positive, as the configured 20 is.
\<close>

theorem is_allowed_after_inactivity:
  assumes "0 < REQUESTS_PER_MINUTE cfg"
    and "\<forall>t\<in>set (history reqs u). 60 \<le> now - t"
  shows "fst (is_allowed cfg now u reqs) = True
       \<and> history (snd (is_allowed cfg now u reqs)) u = [now]"
proof -
  have empty: "filter (\<lambda>t. now - t < 60) (history reqs u) = []"
    using assms(2) by (auto simp: filter_empty_conv)
  then have "int (length (filter (\<lambda>t. now - t < 60) (history reqs u))) < REQUESTS_PER_MINUTE cfg"
    using assms(1) by simp
  from is_allowed_under[OF this] empty show ?thesis by simp
qed

text \<open>
  User 7 made twenty requests at instant 0: the request at instant 59 is rejected, the
  request at instant 60 is allowed.
\<close>

theorem is_allowed_after_inactivity_witness:
  "0 < REQUESTS_PER_MINUTE config
   \<and> fst (is_allowed config 59 7 full_minute) = False
   \<and> fst (is_allowed config 60 7 full_minute) = True"
proof -
  have a: "0 < REQUESTS_PER_MINUTE config" by (simp add: config_def)
  have b: "\<forall>t\<in>set (history full_minute 7). 60 \<le> (60::real) - t"
    by (simp add: full_minute_def history_def)
  have c: "fst (is_allowed config 59 7 full_minute) = False"
    by (simp add: is_allowed_def full_minute_def history_def config_def)
  show ?thesis using a b c is_allowed_after_inactivity[OF a b] by simp
qed

text \<open>
  Claim C5. A user whose recorded instants are all expired issues requests at the
  instants \<open>t0 # ts\<close>, in non-decreasing order and all less than 60 seconds after
  \<open>t0\<close>. If their number is at most the ceiling, every \<open>is_allowed\<close> returns true and
  the history afterwards is exactly these instants. If their number equals the ceiling, a
  further request at an instant \<open>t'\<close> of the same window is rejected and records
  nothing, and \<open>get_wait_time\<close>, read at an instant \<open>tw\<close> from \<open>t'\<close> on in the same
  window, is greater than 0 and at most 60.
\<close>

theorem requests_within_window:
  assumes srt: "sorted (t0 # ts)"
    and win: "\<forall>t\<in>set (t0 # ts). t - t0 < 60"
    and old: "\<forall>t\<in>set (history reqs u). 60 \<le> t0 - t"
    and len: "int (length (t0 # ts)) \<le> REQUESTS_PER_MINUTE cfg"
  shows "fst (requests cfg u (t0 # ts) reqs) = replicate (length (t0 # ts)) True
       \<and> history (snd (requests cfg u (t0 # ts) reqs)) u = t0 # ts
       \<and> (int (length (t0 # ts)) = REQUESTS_PER_MINUTE cfg \<longrightarrow>
            (\<forall>t'. last (t0 # ts) \<le> t' \<and> t' - t0 < 60 \<longrightarrow>
               fst (is_allowed cfg t' u (snd (requests cfg u (t0 # ts) reqs))) = False
               \<and> history (snd (is_allowed cfg t' u (snd (requests cfg u (t0 # ts) reqs)))) u = t0 # ts
               \<and> (\<forall>tw. t' \<le> tw \<and> tw - t0 < 60 \<longrightarrow>
                    0 < get_wait_time tw u (snd (is_allowed cfg t' u (snd (requests cfg u (t0 # ts) reqs))))
                    \<and> get_wait_time tw u (snd (is_allowed cfg t' u (snd (requests cfg u (t0 # ts) reqs)))) \<le> 60)))"
proof -
  have ge: "\<forall>t\<in>set ts. t0 \<le> t" using srt by simp
  have empty: "filter (\<lambda>t. t0 - t < 60) (history reqs u) = []"
    using old by (auto simp: filter_empty_conv)
  have under: "int (length (filter (\<lambda>t. t0 - t < 60) (history reqs u))) < REQUESTS_PER_MINUTE cfg"
    using len empty by simp
  obtain b r1 where r1: "is_allowed cfg t0 u reqs = (b, r1)" by force
  have b: "b = True" and h1: "history r1 u = [t0]"
    using is_allowed_under[OF under] r1 empty by auto
  have rest: "fst (requests cfg u ts r1) = replicate (length ts) True
       \<and> history (snd (requests cfg u ts r1)) u = history r1 u @ ts"
  proof (rule requests_from)
    show "\<forall>a\<in>set (history r1 u) \<union> set ts. \<forall>t\<in>set ts. t - a < 60"
      using win ge h1 by fastforce
    show "int (length (history r1 u) + length ts) \<le> REQUESTS_PER_MINUTE cfg"
      using len h1 by simp
  qed
  define R where "R = snd (requests cfg u (t0 # ts) reqs)"
  have R: "R = snd (requests cfg u ts r1)"
    using r1 by (simp add: R_def split_beta)
  have all: "fst (requests cfg u (t0 # ts) reqs) = replicate (length (t0 # ts)) True"
    using r1 b rest by (simp add: split_beta)
  have hR: "history R u = t0 # ts" using rest h1 R by simp
  have full: "fst (is_allowed cfg t' u R) = False
      \<and> history (snd (is_allowed cfg t' u R)) u = t0 # ts
      \<and> (\<forall>tw. t' \<le> tw \<and> tw - t0 < 60 \<longrightarrow>
            0 < get_wait_time tw u (snd (is_allowed cfg t' u R))
            \<and> get_wait_time tw u (snd (is_allowed cfg t' u R)) \<le> 60)"
    if eq: "int (length (t0 # ts)) = REQUESTS_PER_MINUTE cfg"
      and t': "last (t0 # ts) \<le> t'" "t' - t0 < 60" for t'
  proof -
    have keep: "filter (\<lambda>x. t' - x < 60) (history R u) = t0 # ts"
      unfolding hR using t'(2) ge by (auto simp: filter_id_conv)
    have atl: "int (length (filter (\<lambda>x. t' - x < 60) (history R u))) \<ge> REQUESTS_PER_MINUTE cfg"
      using eq keep by simp
    define R' where "R' = snd (is_allowed cfg t' u R)"
    have rej: "fst (is_allowed cfg t' u R) = False" and hR': "history R' u = t0 # ts"
      using is_allowed_at_limit[OF atl] keep by (auto simp: R'_def)
    have "last (t0 # ts) \<in> set (t0 # ts)" by (rule last_in_set) simp
    then have "t0 \<le> last (t0 # ts)" using ge by auto
    then have t0t': "t0 \<le> t'" using t'(1) by simp
    have wait: "0 < get_wait_time tw u R' \<and> get_wait_time tw u R' \<le> 60"
      if tw: "t' \<le> tw" "tw - t0 < 60" for tw
    proof -
      have w: "window tw R' u = t0 # ts"
        unfolding window_def hR' using tw(2) ge by (auto simp: filter_id_conv)
      have m: "Min (set (t0 # ts)) = t0"
        using ge by (intro Min_eqI) auto
      show ?thesis using w m tw t0t' by (simp add: get_wait_time_history)
    qed
    show ?thesis using rej hR' wait by (simp add: R'_def)
  qed
  show ?thesis using all hR full unfolding R_def by blast
qed


text \<open>
  The configured ceiling of 20: user 7, with two stale instants recorded, issues requests
  at the instants 0, 1, ..., 19; the request at instant 20 is rejected and the wait time
  read at instant 21 lies in the interval from 0 (excluded) to 60.
\<close>

theorem requests_within_window_witness:
  "fst (requests config 7 (0 # later_requests) stale_requests) = replicate 20 True
   \<and> history (snd (requests config 7 (0 # later_requests) stale_requests)) 7 = 0 # later_requests
   \<and> fst (is_allowed config 20 7 (snd (requests config 7 (0 # later_requests) stale_requests))) = False
   \<and> 0 < get_wait_time 21 7 (snd (is_allowed config 20 7 (snd (requests config 7 (0 # later_requests) stale_requests))))
   \<and> get_wait_time 21 7 (snd (is_allowed config 20 7 (snd (requests config 7 (0 # later_requests) stale_requests)))) \<le> 60"
proof -
  have s: "sorted (0 # later_requests)" by (simp add: later_requests_def)
  have w: "\<forall>t\<in>set (0 # later_requests). t - 0 < 60" by (simp add: later_requests_def)
  have o: "\<forall>t\<in>set (history stale_requests 7). 60 \<le> 0 - t"
    by (simp add: stale_requests_def history_def)
  have l: "int (length (0 # later_requests)) \<le> REQUESTS_PER_MINUTE config"
    by (simp add: later_requests_def config_def)
  have e: "int (length (0 # later_requests)) = REQUESTS_PER_MINUTE config"
    by (simp add: later_requests_def config_def)
  have t': "last (0 # later_requests) \<le> 20 \<and> (20::real) - 0 < 60"
    by (simp add: later_requests_def)
  have n: "length (0 # later_requests) = 20" by (simp add: later_requests_def)
  note main = requests_within_window[OF s w o l]
  from main have "fst (requests config 7 (0 # later_requests) stale_requests)
      = replicate (length (0 # later_requests)) True"
    by blast
  then have a: "fst (requests config 7 (0 # later_requests) stale_requests) = replicate 20 True"
    by (simp only: n)
  from main have b: "history (snd (requests config 7 (0 # later_requests) stale_requests)) 7 = 0 # later_requests"
    by blast
  from main e t' have c: "fst (is_allowed config 20 7 (snd (requests config 7 (0 # later_requests) stale_requests))) = False
    \<and> (\<forall>tw. 20 \<le> tw \<and> tw - 0 < 60 \<longrightarrow>
          0 < get_wait_time tw 7 (snd (is_allowed config 20 7 (snd (requests config 7 (0 # later_requests) stale_requests))))
          \<and> get_wait_time tw 7 (snd (is_allowed config 20 7 (snd (requests config 7 (0 # later_requests) stale_requests)))) \<le> 60)"
    by blast
  have tw: "(20::real) \<le> 21 \<and> (21::real) - 0 < 60" by simp
  from c tw have d: "0 < get_wait_time 21 7 (snd (is_allowed config 20 7 (snd (requests config 7 (0 # later_requests) stale_requests))))
          \<and> get_wait_time 21 7 (snd (is_allowed config 20 7 (snd (requests config 7 (0 # later_requests) stale_requests)))) \<le> 60"
    by blast
  show ?thesis using a b c d by blast
qed

section \<open>Properties of the content extraction\<close>

subsection \<open>First occurrences and the de-duplication loop\<close>

lemma first_occurrences_Nil [simp]: "first_occurrences seen [] = []"
  by (simp add: first_occurrences_def)

lemma first_occurrences_Cons:
  "first_occurrences seen (x # xs) =
     (if url x \<in> seen then first_occurrences seen xs
      else x # first_occurrences (insert (url x) seen) xs)"
proof -
  have idx: "[0..<length (x # xs)] = 0 # map Suc [0..<length xs]"
    by (simp add: upt_conv_Cons map_Suc_upt del: upt_Suc)
  let ?shifted = "map ((!) xs)
    (filter (\<lambda>i. url (xs ! i) \<notin> seen \<and> url (xs ! i) \<noteq> url x
                 \<and> url (xs ! i) \<notin> url ` set (take i xs)) [0..<length xs])"
  have shifted: "first_occurrences seen (x # xs) = (if url x \<in> seen then ?shifted else x # ?shifted)"
    unfolding first_occurrences_def idx
    by (simp add: filter_map comp_def del: upt_Suc)
  have seen: "?shifted = first_occurrences seen xs" if "url x \<in> seen"
    unfolding first_occurrences_def
    by (rule arg_cong[of _ _ "map ((!) xs)"], rule filter_cong) (use that in auto)
  have unseen: "?shifted = first_occurrences (insert (url x) seen) xs"
    unfolding first_occurrences_def
    by (rule arg_cong[of _ _ "map ((!) xs)"], rule filter_cong) auto
  show ?thesis
  proof (cases "url x \<in> seen")
    case True
    with shifted seen show ?thesis by (simp only: if_True)
  next
    case False
    with shifted unseen show ?thesis by (simp only: if_False)
  qed
qed

lemma unique_loop_first_occurrences:
  "\<forall>x\<in>set xs. hashable (url x) \<Longrightarrow>
   unique_loop xs seen acc = Inr (acc @ first_occurrences seen xs)"
  by (induction xs arbitrary: seen acc) (auto simp: first_occurrences_Cons)

lemma unique_loop_unhashable:
  "\<exists>x\<in>set xs. \<not> hashable (url x) \<Longrightarrow> unique_loop xs seen acc = Inl TypeError"
  by (induction xs arbitrary: seen acc) auto

lemma first_occurrences_append:
  "first_occurrences seen (xs @ ys) =
     first_occurrences seen xs @ first_occurrences (seen \<union> url ` set xs) ys"
proof (induction xs arbitrary: seen)
  case Nil
  then show ?case by simp
next
  case (Cons x xs)
  have "insert (url x) seen \<union> url ` set xs = seen \<union> url ` set (x # xs)" by auto
  moreover have "url x \<in> seen \<Longrightarrow> seen \<union> url ` set xs = seen \<union> url ` set (x # xs)" by auto
  ultimately show ?case using Cons.IH by (simp add: first_occurrences_Cons)
qed

lemma first_occurrences_urls:
  "url ` set (first_occurrences seen xs) = url ` set xs - seen"
  by (induction xs arbitrary: seen) (auto simp: first_occurrences_Cons)

lemma first_occurrences_distinct:
  "distinct (map url (first_occurrences seen xs))"
proof (induction xs arbitrary: seen)
  case Nil
  then show ?case by simp
next
  case (Cons x xs)
  have "url x \<notin> url ` set (first_occurrences (insert (url x) seen) xs)"
    by (simp add: first_occurrences_urls)
  then show ?case using Cons.IH by (simp add: first_occurrences_Cons)
qed


lemma first_occurrences_subset: "set (first_occurrences seen xs) \<subseteq> set xs"
  by (induction xs arbitrary: seen) (auto simp: first_occurrences_Cons)

lemma unique_loop_Inr:
  assumes "unique_loop xs seen acc = Inr r"
  shows "(\<forall>x\<in>set xs. hashable (url x)) \<and> r = acc @ first_occurrences seen xs"
proof -
  have h: "\<forall>x\<in>set xs. hashable (url x)"
    using assms unique_loop_unhashable[of xs seen acc] by auto
  with assms unique_loop_first_occurrences[OF h, of seen acc] show ?thesis by simp
qed

subsection \<open>The urls of the structured-data strategy\<close>

lemma url_check_ld_url: "url_check u = Inr True \<Longrightarrow> ld_url u"
  by (cases u) (auto simp: url_check_def ld_url_def split: if_splits bool.splits)

lemma json_ld_item_url: "json_ld_item d t u = Inr it \<Longrightarrow> url it = u"
  by (auto simp: json_ld_item_def split: sum.splits)

lemma json_ld_item_ld_url:
  "url_check u = Inr True \<Longrightarrow> json_ld_item d t u = Inr it \<Longrightarrow> ld_url (url it)"
  using url_check_ld_url json_ld_item_url by blast

lemma parse_json_item_shape:
  assumes "parse_json_item item items = Inr items1"
  shows "items1 = items \<or> (\<exists>it. items1 = items @ [it] \<and> ld_url (url it))"
proof (cases item)
  case (JObj d)
  show ?thesis
  proof (cases "dict_get d (ustr ''@type'') (JStr [])")
    case (JStr t)
    define u where "u = (if truthy (dict_get d (ustr ''contentUrl'') JNull)
                            then dict_get d (ustr ''contentUrl'') JNull
                            else dict_get d (ustr ''url'') JNull)"
    from assms JObj JStr show ?thesis
      unfolding parse_json_item_def Let_def u_def[symmetric]
      by (auto split: if_splits sum.splits bool.splits
               dest: json_ld_item_ld_url simp del: set_simps)
  qed (use assms JObj in \<open>simp_all add: parse_json_item_def\<close>)
qed (use assms in \<open>simp_all add: parse_json_item_def\<close>)

lemma parse_json_item_urls:
  assumes "parse_json_item item items = Inr items1"
    and "\<forall>it\<in>set items. ld_url (url it)"
  shows "\<forall>it\<in>set items1. ld_url (url it)"
  using parse_json_item_shape[OF assms(1)] assms(2) by auto

lemma parse_json_items_urls:
  assumes "\<forall>it\<in>set items. ld_url (url it)"
  shows "\<forall>it\<in>set (fst (parse_json_items xs items)). ld_url (url it)"
  using assms
proof (induction xs arbitrary: items)
  case Nil
  then show ?case by simp
next
  case (Cons x xs)
  show ?case
  proof (cases "parse_json_item x items")
    case (Inl e)
    then show ?thesis using Cons.prems by simp
  next
    case (Inr items1)
    then show ?thesis
      using Cons.IH[OF parse_json_item_urls[OF Inr Cons.prems]] by simp
  qed
qed

lemma script_body_urls:
  assumes "\<forall>it\<in>set items. ld_url (url it)"
  shows "\<forall>it\<in>set (fst (script_body loads script items)). ld_url (url it)"
proof -
  have obj: "\<forall>it\<in>set (fst (case parse_json_item (JObj d) items of
             Inl e \<Rightarrow> (items, Some e)
           | Inr items1 \<Rightarrow> (items1, None))). ld_url (url it)" for d
    using assms parse_json_item_urls[of "JObj d" items]
    by (cases "parse_json_item (JObj d) items") auto
  show ?thesis
    unfolding script_body_def
    using assms parse_json_items_urls[OF assms] obj
    by (simp split: sum.splits json.splits option.splits)
qed

lemma script_loop_urls:
  assumes "\<forall>it\<in>set items. ld_url (url it)"
  shows "\<forall>it\<in>set (script_loop loads scripts items). ld_url (url it)"
  using assms
proof (induction scripts arbitrary: items)
  case Nil
  then show ?case by simp
next
  case (Cons script rest)
  obtain items1 r where b: "script_body loads script items = (items1, r)" by force
  have i1: "\<forall>it\<in>set items1. ld_url (url it)"
    using script_body_urls[OF Cons.prems, of loads script] b by simp
  show ?case using b i1 Cons.IH[OF i1] by (cases r) auto
qed

lemma extract_json_ld_urls: "\<forall>it\<in>set (extract_json_ld l html). ld_url (url it)"
  unfolding extract_json_ld_def
  by (cases "soup_scripts l html") (use script_loop_urls[of "[]"] in auto)


subsection \<open>The urls of the embedded-state strategy\<close>

lemma js_url_JStr [simp]: "js_url (JStr s) = startswith s (ustr ''http'')"
  by (simp add: js_url_def)

lemma traverse_urls:
  "\<forall>it\<in>set (traverse_json_for_media data depth max_depth). js_url (url it)"
  "\<forall>it\<in>set (traverse_entries d depth). js_url (url it)"
  "\<forall>it\<in>set (traverse_elements xs depth). js_url (url it)"
proof (induction data depth max_depth and d depth and xs depth
      rule: traverse_json_for_media_traverse_entries_traverse_elements.induct)
  case (8 key v kvs depth)
  show ?case
  proof (cases "\<exists>media_key\<in>set media_keys. contains media_key (lower key)")
    case True
    then show ?thesis using 8(2) by (cases v) (auto simp: Let_def)
  next
    case False
    then show ?thesis using 8(1)[OF refl False] 8(2) by (auto simp: Let_def)
  qed
qed auto

lemma extract_js_data_urls: "\<forall>it\<in>set (extract_js_data l html). js_url (url it)"
  unfolding extract_js_data_def
  using traverse_urls(1) by (auto split: sum.splits)


text \<open>
  Beyond the depth bound nothing is emitted. Within a dictionary that is traversed, an
  entry whose key contains a media key and whose value is a string beginning with
  \<open>http\<close> yields its item, typed by the key.
\<close>

lemma traverse_beyond_depth:
  "depth > max_depth \<Longrightarrow> traverse_json_for_media data depth max_depth = []"
  by (cases data) simp_all

lemma traverse_entries_yield:
  assumes "(key, JStr s) \<in> set d"
    and "\<exists>media_key\<in>set media_keys. contains media_key (lower key)"
    and "startswith s (ustr ''http'')"
  shows "\<lparr> url = JStr s,
           type = (if contains (ustr ''video'') (lower key) then ustr ''video'' else ustr ''image''),
           thumbnail = None, description = None, source = Some (ustr ''json'') \<rparr>
         \<in> set (traverse_entries d depth)"
  using assms(1)
proof (induction d)
  case Nil
  then show ?case by simp
next
  case (Cons kv d)
  obtain k v where kv: "kv = (k, v)" by (cases kv)
  show ?case
  proof (cases "kv = (key, JStr s)")
    case True
    then show ?thesis using assms(2,3) by (simp add: Let_def)
  next
    case False
    then have "(key, JStr s) \<in> set d" using Cons.prems by simp
    from Cons.IH[OF this] show ?thesis
      unfolding kv traverse_entries.simps Let_def set_append by (rule UnI2)
  qed
qed

subsection \<open>The urls of the direct patterns\<close>

lemma rmatch_group_extends:
  "rmatch as s g cap = Some (grp, rest) \<Longrightarrow> GroupOpen \<notin> set as \<Longrightarrow> \<exists>more. grp = rev cap @ more"
proof (induction as s g cap rule: rmatch.induct)
  case (5 c as x xs g cap)
  then show ?case by (auto split: if_splits)
next
  case (7 c as x xs g cap)
  then show ?case by (auto split: if_splits)
next
  case (9 c as x xs g cap)
  then show ?case by (auto split: if_splits option.splits)
next
  case (11 c as x xs g cap)
  then show ?case by (auto split: if_splits option.splits)
qed auto

lemma rmatch_reaches_group:
  "rmatch as s g cap = Some r \<Longrightarrow> as = pre @ GroupOpen # body \<Longrightarrow>
   \<exists>s'. rmatch body s' True [] = Some r"
proof (induction as s g cap arbitrary: pre rule: rmatch.induct)
  case (1 s g cap)
  then show ?case by simp
next
  case (2 as s g cap)
  then show ?case by (cases pre) auto
next
  case (3 as s g cap)
  then show ?case by (cases pre) auto
next
  case (4 c as g cap)
  then show ?case by (cases pre) auto
next
  case (5 c as x xs g cap)
  then show ?case by (cases pre) (auto split: if_splits)
next
  case (6 c as g cap)
  then show ?case by (cases pre) auto
next
  case (7 c as x xs g cap)
  from 7(3) obtain pre' where pre: "pre = Plus c # pre'" "as = pre' @ GroupOpen # body"
    by (cases pre) auto
  from 7(2) have m: "charset_match c x"
    and r: "rmatch (Star c # as) xs g (if g then x # cap else cap) = Some r"
    by (auto split: if_splits)
  have "Star c # as = (Star c # pre') @ GroupOpen # body" using pre by simp
  from 7(1)[OF m r this] show ?case .
next
  case (8 c as g cap)
  then show ?case by (cases pre) auto
next
  case (9 c as x xs g cap)
  from 9(5) obtain pre' where pre: "pre = Star c # pre'" "as = pre' @ GroupOpen # body"
    by (cases pre) auto
  show ?case
  proof (cases "charset_match c x")
    case True
    show ?thesis
    proof (cases "rmatch (Star c # as) xs g (if g then x # cap else cap)")
      case None
      with True 9(4) have "rmatch as (x # xs) g cap = Some r" by simp
      from 9(2)[OF True None this pre(2)] show ?thesis .
    next
      case (Some r')
      with True 9(4) have "rmatch (Star c # as) xs g (if g then x # cap else cap) = Some r"
        by simp
      moreover have "Star c # as = pre @ GroupOpen # body" using pre by simp
      ultimately show ?thesis using 9(1)[OF True] by blast
    qed
  next
    case False
    with 9(4) have "rmatch as (x # xs) g cap = Some r" by simp
    from 9(3)[OF False this pre(2)] show ?thesis .
  qed
next
  case (10 c as g cap)
  then show ?case by (cases pre) auto
next
  case (11 c as x xs g cap)
  from 11(4) obtain pre' where pre: "pre = LazyStar c # pre'" "as = pre' @ GroupOpen # body"
    by (cases pre) auto
  show ?case
  proof (cases "rmatch as (x # xs) g cap")
    case None
    with 11(3) have m: "charset_match c x"
      and r: "rmatch (LazyStar c # as) xs g (if g then x # cap else cap) = Some r"
      by (auto split: if_splits)
    have "LazyStar c # as = pre @ GroupOpen # body" using pre by simp
    from 11(2)[OF None m r this] show ?thesis .
  next
    case (Some r')
    with 11(3) have "rmatch as (x # xs) g cap = Some r" by simp
    from 11(1)[OF this pre(2)] show ?thesis .
  qed
qed

lemma rmatch_literal_prefix:
  "rmatch (map (\<lambda>c. One (Among (vs c))) p @ tail) s True cap = Some (grp, rest) \<Longrightarrow>
   GroupOpen \<notin> set tail \<Longrightarrow>
   \<exists>xs more. list_all2 (\<lambda>x c. x \<in> set (vs c)) xs p \<and> grp = rev cap @ xs @ more"
proof (induction p arbitrary: s cap)
  case Nil
  then show ?case using rmatch_group_extends[of tail s True cap grp rest] by auto
next
  case (Cons c p)
  from Cons.prems(1) obtain x s' where s: "s = x # s'"
    by (cases s) auto
  from Cons.prems(1) s have m: "x \<in> set (vs c)"
    and r: "rmatch (map (\<lambda>c. One (Among (vs c))) p @ tail) s' True (x # cap) = Some (grp, rest)"
    by (auto split: if_splits)
  from Cons.IH[OF r Cons.prems(2)] obtain xs more
    where "list_all2 (\<lambda>x c. x \<in> set (vs c)) xs p" "grp = rev (x # cap) @ xs @ more" by blast
  then have "list_all2 (\<lambda>x c. x \<in> set (vs c)) (x # xs) (c # p) \<and> grp = rev cap @ (x # xs) @ more"
    using m by simp
  then show ?case by blast
qed

lemma scan_all:
  assumes "\<And>s' grp rest. rmatch p s' False [] = Some (grp, rest) \<Longrightarrow> Q grp"
  shows "\<forall>g\<in>set (scan p s). Q g"
  using assms
proof (induction p s rule: scan.induct)
  case (1 p)
  show ?case
  proof (cases "rmatch p [] False []")
    case None
    then show ?thesis by simp
  next
    case (Some r)
    obtain grp rest where r: "r = (grp, rest)" by (cases r)
    have "Q grp" using 1[of "[]" grp rest] Some r by simp
    then show ?thesis using Some r by simp
  qed
next
  case (2 p x xs)
  show ?case
  proof (cases "rmatch p (x # xs) False []")
    case None
    then show ?thesis using 2(1)[OF None 2(3)] by simp
  next
    case (Some r)
    obtain grp rest where r: "r = (grp, rest)" by (cases r)
    have "Q grp" using 2(3)[of "x # xs" grp rest] Some r by simp
    then show ?thesis using Some r 2(2)[OF Some r[symmetric] 2(3)] by simp
  qed
qed

lemma compile_append: "compile ic (p @ q) = compile ic p @ compile ic q"
  by (simp add: compile_def)

lemma compile_lit: "compile True (lit w) = map (\<lambda>c. One (Among (case_variants c))) w"
  by (simp add: compile_def lit_def)

text \<open>
  The variants of the characters of \<open>https://\<close>: the long s is the only code point
  beyond the letters of both cases.
\<close>

lemma case_variants_https:
  "map case_variants ''https://''
     = [[104, 72], [116, 84], [116, 84], [112, 80], [115, 83, 0x17F], [58], [47], [47]]"
  by code_simp

text \<open>
  So a string begins with \<open>https://\<close> in this sense exactly when its first eight code
  points are \<open>h\<close> or \<open>H\<close>, twice \<open>t\<close> or \<open>T\<close>, \<open>p\<close> or \<open>P\<close>, one of \<open>s\<close>,
  \<open>S\<close> and U+017F, a colon and two slashes.
\<close>

lemma ci_startswith_https:
  "ci_startswith u ''https://'' \<longleftrightarrow>
     (\<exists>h t t' p s rest. u = [h, t, t', p, s, 58, 47, 47] @ rest
        \<and> h \<in> {104, 72} \<and> t \<in> {116, 84} \<and> t' \<in> {116, 84} \<and> p \<in> {112, 80}
        \<and> s \<in> {115, 83, 0x17F})"
proof
  assume "ci_startswith u ''https://''"
  then have a: "list_all2 (\<lambda>x c. x \<in> set (case_variants c)) (take 8 u) ''https://''"
    by (simp add: ci_startswith_def eval_nat_numeral)
  have u: "u = take 8 u @ drop 8 u" by simp
  from a case_variants_https obtain h t t' p s where
    "take 8 u = [h, t, t', p, s, 58, 47, 47]" "h \<in> {104, 72}" "t \<in> {116, 84}" "t' \<in> {116, 84}"
    "p \<in> {112, 80}" "s \<in> {115, 83, 0x17F}"
    by (auto simp: list_all2_Cons2)
  with u show "\<exists>h t t' p s rest. u = [h, t, t', p, s, 58, 47, 47] @ rest
        \<and> h \<in> {104, 72} \<and> t \<in> {116, 84} \<and> t' \<in> {116, 84} \<and> p \<in> {112, 80}
        \<and> s \<in> {115, 83, 0x17F}"
    by metis
next
  assume "\<exists>h t t' p s rest. u = [h, t, t', p, s, 58, 47, 47] @ rest
        \<and> h \<in> {104, 72} \<and> t \<in> {116, 84} \<and> t' \<in> {116, 84} \<and> p \<in> {112, 80}
        \<and> s \<in> {115, 83, 0x17F}"
  then obtain h t t' p s rest where u: "u = [h, t, t', p, s, 58, 47, 47] @ rest"
    and m: "h \<in> {104, 72}" "t \<in> {116, 84}" "t' \<in> {116, 84}" "p \<in> {112, 80}" "s \<in> {115, 83, 0x17F}"
    by blast
  from case_variants_https m show "ci_startswith u ''https://''"
    unfolding u ci_startswith_def by (auto simp: eval_nat_numeral)
qed

lemma url_group_match:
  assumes "rmatch (compile True (pre @ url_group ext)) s False [] = Some (grp, rest)"
  shows "ci_startswith grp ''https://''"
proof -
  define tail where "tail = compile True ([Plus (NotChr (CHR 0x22))] @ lit ext
       @ [Star (NotChr (CHR 0x22)), GroupClose, One (Chr (CHR 0x22))])"
  have shape: "compile True (pre @ url_group ext)
      = compile True pre @ GroupOpen # (map (\<lambda>c. One (Among (case_variants c))) ''https://'' @ tail)"
    unfolding url_group_def tail_def compile_append compile_lit
    by (simp add: compile_def)
  have closed: "GroupOpen \<notin> set tail"
    by (auto simp: tail_def lit_def compile_def)
  from rmatch_reaches_group[OF assms shape]
  obtain s' where "rmatch (map (\<lambda>c. One (Among (case_variants c))) ''https://'' @ tail) s' True []
      = Some (grp, rest)" by blast
  from rmatch_literal_prefix[OF this closed]
  have "\<exists>xs more. list_all2 (\<lambda>x c. x \<in> set (case_variants c)) xs ''https://'' \<and> grp = xs @ more"
    by (simp only: rev.simps append_Nil)
  then obtain xs more where xs: "list_all2 (\<lambda>x c. x \<in> set (case_variants c)) xs ''https://''"
    and grp: "grp = xs @ more"
    by blast
  from xs have "length xs = length ''https://''" by (rule list_all2_lengthD)
  then have "take (length ''https://'') grp = xs" using grp by simp
  then show ?thesis using xs by (simp only: ci_startswith_def)
qed

lemma direct_patterns_shape:
  assumes "p \<in> set video_patterns \<union> set image_patterns"
  shows "\<exists>pre ext. p = pre @ url_group ext"
proof -
  have nested: "\<exists>pre ext. a @ b # c @ url_group e = pre @ url_group ext"
    for a c :: pattern and b e
    by (rule exI[of _ "a @ b # c"], rule exI[of _ e]) simp
  from assms show ?thesis
    unfolding video_patterns_def image_patterns_def
    by (auto intro: nested)
qed

lemma extract_direct_urls_urls: "\<forall>it\<in>set (extract_direct_urls html). direct_url (url it)"
proof -
  have groups: "ci_startswith g ''https://''"
    if "p \<in> set video_patterns \<union> set image_patterns" "g \<in> set (findall True p html)" for p g
  proof -
    from direct_patterns_shape[OF that(1)] obtain pre ext where p: "p = pre @ url_group ext" by blast
    have "\<forall>g\<in>set (scan (compile True (pre @ url_group ext)) html). ci_startswith g ''https://''"
      by (rule scan_all) (rule url_group_match)
    then show ?thesis using that(2) p by (simp add: findall_def)
  qed
  show ?thesis
    unfolding extract_direct_urls_def
    by (auto simp: direct_item_def direct_url_def intro: groups)
qed


subsection \<open>The pipeline\<close>

lemma extract_media_subset:
  assumes "it \<in> set (extract_media l html)"
  shows "hashable (url it)
       \<and> it \<in> set (extract_json_ld l html) \<union> set (extract_js_data l html) \<union> set (extract_direct_urls html)"
proof -
  let ?all = "extract_json_ld l html @ extract_js_data l html @ extract_direct_urls html"
  from assms obtain r where r: "unique_loop ?all {} [] = Inr r" and it: "it \<in> set (take 15 r)"
    by (cases "unique_loop ?all {} []") (auto simp: extract_media_def Let_def)
  from unique_loop_Inr[OF r] have h: "\<forall>x\<in>set ?all. hashable (url x)"
    and eq: "r = first_occurrences {} ?all" by auto
  from it have "it \<in> set r" by (rule in_set_takeD)
  then have "it \<in> set ?all" using eq first_occurrences_subset by blast
  then show ?thesis using h by auto
qed


lemma extract_media_at_most_15: "length (extract_media l html) \<le> 15"
  by (simp add: extract_media_def Let_def split: sum.splits)

text \<open>
  A script element whose text \<open>json.loads\<close> rejects with \<open>JSONDecodeError\<close> is skipped
  and the loop goes on with the next element.
\<close>

lemma script_loop_skips_decode_error:
  assumes "loads s = Inl JSONDecodeError"
  shows "script_loop loads (Some s # rest) items = script_loop loads rest items"
  using assms by (simp add: script_body_def)

text \<open>
  Every other exception of a script element ends the loop: the elements after it are not
  looked at.
\<close>

lemma script_loop_stops_on_other_exception:
  assumes "script_body loads script items = (items1, Some e)" and "e \<noteq> JSONDecodeError"
  shows "script_loop loads (script # rest) items = items1"
  using assms by simp

subsection \<open>The concrete pages\<close>

lemma demo_page_ld: "extract_json_ld demo_libs demo_page = [video_item]"
  by code_simp

lemma demo_page_js: "extract_js_data demo_libs demo_page = [image_item]"
  by code_simp

lemma demo_page_direct:
  "extract_direct_urls demo_page = [direct_item (ustr ''video'') (ustr ''https://c/v.mp4'')]"
  by code_simp

lemma demo_page_items: "extract_media demo_libs demo_page = [video_item, image_item]"
  by (simp add: extract_media_def demo_page_ld demo_page_js demo_page_direct
        video_item_def image_item_def direct_item_def ustr_def)

lemma page_good_only_items: "extract_media demo_libs page_good_only = [video_item]"
  by code_simp

lemma page_bad_first_items: "extract_media demo_libs page_bad_first = []"
  by code_simp

lemma page_list_url_direct:
  "extract_direct_urls page_list_url = [direct_item (ustr ''video'') (ustr ''https://c/v.mp4'')]"
  by code_simp

lemma page_list_url_items: "extract_media demo_libs page_list_url = []"
  by code_simp

lemma page_loose_urls_ld: "extract_json_ld demo_libs page_loose_urls = [relative_item]"
  by code_simp

lemma page_loose_urls_js: "extract_js_data demo_libs page_loose_urls = [word_item]"
  by code_simp

lemma page_loose_urls_direct:
  "extract_direct_urls page_loose_urls = [direct_item (ustr ''video'') long_s_url]"
  by code_simp

lemma page_loose_urls_items:
  "extract_media demo_libs page_loose_urls
     = [relative_item, word_item, direct_item (ustr ''video'') long_s_url]"
  by (simp add: extract_media_def page_loose_urls_ld page_loose_urls_js page_loose_urls_direct
        relative_item_def word_item_def direct_item_def long_s_url_def ustr_def)

lemma page_sixteen_ld: "extract_json_ld demo_libs page_sixteen = []"
  by code_simp

lemma page_sixteen_js: "extract_js_data demo_libs page_sixteen = []"
  by code_simp

lemma page_sixteen_direct:
  "extract_direct_urls page_sixteen
     = map (\<lambda>c. direct_item (ustr ''video'') (numbered_url c)) ''abcdefghijklmnop''"
  by code_simp

lemma page_sixteen_items:
  "extract_media demo_libs page_sixteen
     = map (\<lambda>c. direct_item (ustr ''video'') (numbered_url c)) ''abcdefghijklmno''"
  by (simp add: extract_media_def page_sixteen_ld page_sixteen_js page_sixteen_direct
        direct_item_def numbered_url_def ustr_def)

subsection \<open>Claims\<close>

text \<open>
  Claim C1, as amended. The list that the pipeline returns carries no url twice. When
  every discovered url is hashable, it is the first 15 items of: the structured-data
  items whose url no earlier structured-data item has, then the embedded-state items
  whose url no structured-data item and no earlier embedded-state item has, then the
  direct-pattern items whose url no item of the first two strategies and no earlier
  direct-pattern item has. Of the items with one url, the first discovered is the one
  kept.
\<close>

theorem extract_media_first_discovered:
  "distinct (map url (extract_media l html))
   \<and> ((\<forall>x\<in>set (extract_json_ld l html @ extract_js_data l html @ extract_direct_urls html).
          hashable (url x)) \<longrightarrow>
        extract_media l html =
          take 15 (first_occurrences {} (extract_json_ld l html)
                   @ first_occurrences (url ` set (extract_json_ld l html)) (extract_js_data l html)
                   @ first_occurrences (url ` set (extract_json_ld l html)
                                         \<union> url ` set (extract_js_data l html))
                       (extract_direct_urls html)))"
proof -
  let ?ld = "extract_json_ld l html" and ?js = "extract_js_data l html"
    and ?dr = "extract_direct_urls html"
  let ?all = "?ld @ ?js @ ?dr"
  have split: "first_occurrences {} ?all =
      first_occurrences {} ?ld @ first_occurrences (url ` set ?ld) ?js
      @ first_occurrences (url ` set ?ld \<union> url ` set ?js) ?dr"
    by (simp add: first_occurrences_append)
  have good: "extract_media l html = take 15 (first_occurrences {} ?all)"
    if "\<forall>x\<in>set ?all. hashable (url x)"
    using unique_loop_first_occurrences[OF that, of "{}" "[]"]
    by (simp add: extract_media_def Let_def)
  have bad: "extract_media l html = []" if "\<exists>x\<in>set ?all. \<not> hashable (url x)"
    using unique_loop_unhashable[OF that, of "{}" "[]"]
    by (simp add: extract_media_def Let_def)
  have "distinct (map url (extract_media l html))"
  proof (cases "\<forall>x\<in>set ?all. hashable (url x)")
    case True
    have "distinct (take 15 (map url (first_occurrences {} ?all)))"
      using first_occurrences_distinct by (rule distinct_take)
    then show ?thesis using good[OF True] by (simp add: take_map)
  next
    case False
    then show ?thesis using bad by simp
  qed
  then show ?thesis using good split by simp
qed

text \<open>
  The page with a structured-data video, an embedded-state image and a direct match of
  the video's url again: every url is a string, and the result is the video, then the
  image.
\<close>

theorem extract_media_first_discovered_witness:
  "extract_media demo_libs demo_page = [video_item, image_item]"
proof -
  have h: "\<forall>x\<in>set (extract_json_ld demo_libs demo_page @ extract_js_data demo_libs demo_page
                      @ extract_direct_urls demo_page). hashable (url x)"
    by (simp add: demo_page_ld demo_page_js demo_page_direct
          video_item_def image_item_def direct_item_def)
  from extract_media_first_discovered[of demo_libs demo_page] h
  have "extract_media demo_libs demo_page =
          take 15 (first_occurrences {} (extract_json_ld demo_libs demo_page)
                   @ first_occurrences (url ` set (extract_json_ld demo_libs demo_page))
                       (extract_js_data demo_libs demo_page)
                   @ first_occurrences (url ` set (extract_json_ld demo_libs demo_page)
                                         \<union> url ` set (extract_js_data demo_libs demo_page))
                       (extract_direct_urls demo_page))"
    by blast
  then show ?thesis
    by (simp add: demo_page_ld demo_page_js demo_page_direct first_occurrences_Cons
          video_item_def image_item_def direct_item_def ustr_def)
qed

text \<open>
  Claim C1 as stated fails: on the page with sixteen \<open>src\<close> attributes the direct
  patterns discover sixteen urls, all strings and pairwise different, and the cut to 15
  items drops the last one, \<open>https://p.mp4\<close>: it is discovered and appears in the
  returned list not once but never.
\<close>

theorem extract_media_sixteen_counterexample:
  "direct_item (ustr ''video'') (numbered_url CHR ''p'') \<in> set (extract_direct_urls page_sixteen)
   \<and> JStr (numbered_url CHR ''p'') \<notin> url ` set (extract_media demo_libs page_sixteen)
   \<and> length (extract_media demo_libs page_sixteen) = 15"
  by (simp add: page_sixteen_direct page_sixteen_items direct_item_def numbered_url_def ustr_def)

text \<open>
  Claim C4, at a failing input. The page \<open>page_bad_first\<close> holds the block \<open>[1]\<close> in
  front of the video block that alone gives one item: \<open>_parse_json_item\<close> raises
  \<open>AttributeError\<close> on the number, the inner handler catches \<open>JSONDecodeError\<close> only,
  the loop over the blocks ends and the video block is never read. On the page
  \<open>page_list_url\<close> the url of the block is a list, hashing it raises in the
  de-duplication, and the match of the direct patterns is lost with it.
\<close>

theorem extract_media_bad_block_aborts:
  "extract_media demo_libs page_good_only = [video_item]
   \<and> extract_media demo_libs page_bad_first = []
   \<and> extract_direct_urls page_list_url = [direct_item (ustr ''video'') (ustr ''https://c/v.mp4'')]
   \<and> extract_media demo_libs page_list_url = []"
  by (simp add: page_good_only_items page_bad_first_items page_list_url_direct page_list_url_items)

text \<open>
  Claim C9, at a failing input. The entry \<open>mediaUrl\<close> lies one level below the root and
  its value begins with a network scheme. Under the key \<open>snap\<close> it yields an item; under
  the key \<open>snapUrls\<close>, which contains the media key \<open>url\<close>, the nested dictionary is
  never descended into and nothing is emitted.
\<close>

theorem traverse_skips_below_media_key:
  "traverse_json_for_media state_under_plain_key 0 10 = [state_item]
   \<and> traverse_json_for_media state_under_media_key 0 10 = []"
  by code_simp

text \<open>
  Claim C10, as amended. Every item of the list that the pipeline returns has a string
  as url. For an item of the structured-data strategy the string contains \<open>http://\<close> or
  \<open>https://\<close> somewhere; for an item of the embedded-state strategy it begins with
  \<open>http\<close>; for an item of the direct patterns it begins with \<open>https://\<close> as
  \<open>re.IGNORECASE\<close> matches it: \<open>h\<close> or \<open>H\<close>, twice \<open>t\<close> or \<open>T\<close>, \<open>p\<close> or \<open>P\<close>,
  then \<open>s\<close>, \<open>S\<close> or the long s U+017F, then \<open>://\<close>.
\<close>

theorem extract_media_urls:
  "\<forall>it\<in>set (extract_media l html). \<exists>u. url it = JStr u \<and>
     ((it \<in> set (extract_json_ld l html)
         \<and> (contains (ustr ''http://'') u \<or> contains (ustr ''https://'') u))
      \<or> (it \<in> set (extract_js_data l html) \<and> startswith u (ustr ''http''))
      \<or> (it \<in> set (extract_direct_urls html) \<and> ci_startswith u ''https://''))"
proof
  fix it
  assume "it \<in> set (extract_media l html)"
  from extract_media_subset[OF this]
  have h: "hashable (url it)"
    and mem: "it \<in> set (extract_json_ld l html) \<or> it \<in> set (extract_js_data l html)
              \<or> it \<in> set (extract_direct_urls html)" by auto
  from mem show "\<exists>u. url it = JStr u \<and>
     ((it \<in> set (extract_json_ld l html)
         \<and> (contains (ustr ''http://'') u \<or> contains (ustr ''https://'') u))
      \<or> (it \<in> set (extract_js_data l html) \<and> startswith u (ustr ''http''))
      \<or> (it \<in> set (extract_direct_urls html) \<and> ci_startswith u ''https://''))"
  proof (elim disjE)
    assume m: "it \<in> set (extract_json_ld l html)"
    then have "ld_url (url it)" using extract_json_ld_urls by blast
    with h m show ?thesis by (cases "url it") (auto simp: ld_url_def)
  next
    assume m: "it \<in> set (extract_js_data l html)"
    then have "js_url (url it)" using extract_js_data_urls by blast
    with m show ?thesis by (cases "url it") (auto simp: js_url_def)
  next
    assume m: "it \<in> set (extract_direct_urls html)"
    then have "direct_url (url it)" using extract_direct_urls_urls by blast
    with m show ?thesis by (cases "url it") (auto simp: direct_url_def)
  qed
qed

text \<open>
  On the page with the three strategies, the embedded-state image is returned and its
  url begins with \<open>http\<close>.
\<close>

theorem extract_media_urls_witness:
  "image_item \<in> set (extract_media demo_libs demo_page)
   \<and> (\<exists>u. url image_item = JStr u \<and> startswith u (ustr ''http''))"
proof -
  have m: "image_item \<in> set (extract_media demo_libs demo_page)"
    by (simp add: demo_page_items)
  from extract_media_urls[of demo_libs demo_page] m
  obtain u where u: "url image_item = JStr u"
    and c: "(image_item \<in> set (extract_json_ld demo_libs demo_page)
              \<and> (contains (ustr ''http://'') u \<or> contains (ustr ''https://'') u))
         \<or> (image_item \<in> set (extract_js_data demo_libs demo_page) \<and> startswith u (ustr ''http''))
         \<or> (image_item \<in> set (extract_direct_urls demo_page) \<and> ci_startswith u ''https://'')"
    by blast
  from u have "u = ustr ''https://c/i.png''" by (simp add: image_item_def)
  then have "startswith u (ustr ''http'')" by (simp add: startswith_def ustr_def)
  with m u show ?thesis by blast
qed

text \<open>
  Claim C10 as stated fails for each strategy. On the page \<open>page_loose_urls\<close> the
  structured-data block gives the url \<open>/i?u=http://\<close>, which contains a scheme and
  begins with none; the embedded-state fragment gives the word \<open>httpx\<close>, which begins
  with \<open>http\<close> and with no scheme; and the direct patterns capture the \<open>src\<close> written
  with the long s, which \<open>re.IGNORECASE\<close> takes for an \<open>s\<close> and which \<open>https://\<close>
  is not a prefix of, not even of the lowered url. The three items are returned.
\<close>

theorem extract_media_loose_urls_counterexample:
  "extract_json_ld demo_libs page_loose_urls = [relative_item]
   \<and> extract_js_data demo_libs page_loose_urls = [word_item]
   \<and> extract_direct_urls page_loose_urls = [direct_item (ustr ''video'') long_s_url]
   \<and> extract_media demo_libs page_loose_urls
       = [relative_item, word_item, direct_item (ustr ''video'') long_s_url]
   \<and> map (\<lambda>it. scheme_url (url it)) (extract_media demo_libs page_loose_urls)
       = [False, False, False]
   \<and> \<not> startswith (lower long_s_url) (ustr ''https://'')"
  by (simp add: page_loose_urls_ld page_loose_urls_js page_loose_urls_direct page_loose_urls_items
        scheme_url_def relative_item_def word_item_def direct_item_def long_s_url_def
        startswith_def ustr_def lower_def lower_char_def upper_letter_def wide_lower_def)

section \<open>Properties of the media download\<close>

lemma config_attr_downloader: "config_attr downloader_globals field = Inl NameError"
  by (simp add: config_attr_def downloader_globals_def)

lemma download_media_no_config:
  "download_media downloader_globals url_suffix address filename request open_error fs = (None, fs)"
  by (simp add: download_media_def config_attr_downloader Let_def split: sum.splits)

text \<open>
  The loop over the chunks in a namespace where \<open>config\<close> is bound to a configuration:
  once the total is at most the ceiling and some further chunks take it above, the loop
  ends with the file unlinked.
\<close>

lemma stream_chunks_oversize:
  assumes "g ''config'' = Some (PyConfig c)"
    and "tot \<le> MAX_FILE_SIZE c"
    and "MAX_FILE_SIZE c < tot + int (length (concat (take n cs)))"
  shows "fst (stream_chunks g p cs err tot fs) = Oversize
       \<and> snd (stream_chunks g p cs err tot fs) p = None"
  using assms(2,3)
proof (induction cs arbitrary: n tot fs)
  case Nil
  then show ?case by simp
next
  case (Cons chunk rest)
  have attr: "config_attr g MAX_FILE_SIZE = Inr (MAX_FILE_SIZE c)"
    using assms(1) by (simp add: config_attr_def)
  obtain k where n: "n = Suc k" using Cons.prems by (cases n) auto
  show ?case
  proof (cases "chunk = []")
    case True
    then show ?thesis using Cons.IH[of tot k] Cons.prems n by simp
  next
    case False
    show ?thesis
    proof (cases "tot + int (length chunk) > MAX_FILE_SIZE c")
      case True
      then show ?thesis using False attr by (simp add: Let_def)
    next
      case le: False
      have "MAX_FILE_SIZE c < (tot + int (length chunk)) + int (length (concat (take k rest)))"
        using Cons.prems(2) n by simp
      from Cons.IH[OF _ this] le False attr show ?thesis by (simp add: Let_def)
    qed
  qed
qed


lemma stream_chunks_never_oversize:
  "fst (stream_chunks downloader_globals p cs err tot fs) \<noteq> Oversize"
  by (induction cs arbitrary: tot fs)
     (simp_all add: config_attr_downloader Let_def split: option.splits)


lemma deliver_loop_no_download:
  assumes "\<And>idx u filename fs. download idx u filename fs = (None, fs)"
  shows "deliver_loop download relay user_id clock idx items n fs = ([], n, fs)"
  by (induction items arbitrary: idx) (simp_all add: deliver_item_def assms)

lemma bot_downloader_no_config:
  "bot_downloader downloader_globals url_suffix requests_of open_errors idx u filename fs = (None, fs)"
  by (cases u) (simp_all add: bot_downloader_def download_media_no_config)

text \<open>
  Claim C2. In the namespace of its module, where \<open>config\<close> is unbound,
  \<open>download_media\<close> returns \<open>None\<close> and leaves the file system as it was, for every
  url, file name, outcome of the request and outcome of opening the file. The delivery
  loop run with this downloader sends nothing and reports every found item as failed.
\<close>

theorem download_media_always_absent:
  "download_media downloader_globals url_suffix address filename request open_error fs = (None, fs)
   \<and> deliver (bot_downloader downloader_globals url_suffix requests_of open_errors)
        relay user_id clock media_items fs
       = ([], \<lparr> found = int (length media_items), succeeded = 0,
                 failed = int (length media_items) \<rparr>, fs)"
  using deliver_loop_no_download[of "bot_downloader downloader_globals url_suffix requests_of open_errors",
      OF bot_downloader_no_config]
  by (simp add: download_media_no_config deliver_def)


section \<open>Properties of the delivery\<close>

text \<open>
  One iteration of the loop, for any downloader: when the download returns an existing
  file and the reply does not raise, the file is sent as a video or as a photo by the
  type of the item, and unlinked; when the download returns \<open>None\<close>, nothing is sent.
\<close>

lemma deliver_item_relays:
  assumes "download idx (url item) (item_filename user_id (clock idx) idx) fs = (Some p, fs1)"
    and "fs1 p \<noteq> None"
    and "relay idx = None"
  shows "deliver_item download relay user_id clock idx item fs
       = (Some (if type item = ustr ''video'' then ReplyVideo p else ReplyPhoto p), fs1(p := None))"
  using assms by (simp add: deliver_item_def Let_def)

lemma deliver_item_skips:
  assumes "download idx (url item) (item_filename user_id (clock idx) idx) fs = (None, fs1)"
  shows "deliver_item download relay user_id clock idx item fs = (None, fs1)"
  using assms by (simp add: deliver_item_def Let_def)


end
